theory Spec2Isabelle
  imports Complex_Main "HOL-Library.Sublist" "HOL-Library.AList"
begin

section \<open>Data model\<close>

text \<open>
  The tracing pipeline of \<^verbatim>\<open>src/lib/contour.ts\<close> and \<^verbatim>\<open>src/lib/bezier-fit.ts\<close>.
  A JavaScript \<^verbatim>\<open>number\<close> that carries a coordinate, a distance or a tolerance is a
  \<^typ>\<open>real\<close>: arithmetic is exact, there is no rounding, no NaN and no infinity.
  Array lengths, indices, pixel counts and the recursion depth are \<^typ>\<open>nat\<close>.
  An exception of the JavaScript engine is a value of \<open>error\<close>.
\<close>

type_synonym Pt = "real \<times> real"

type_synonym BezierCtrl = "Pt \<times> Pt \<times> Pt \<times> Pt"

datatype error = TypeError | RangeError

definition hypot :: "real \<Rightarrow> real \<Rightarrow> real" where
  "hypot x y = sqrt (x * x + y * y)"

section \<open>Ramer-Douglas-Peucker simplification\<close>

text \<open>\<^verbatim>\<open>distPointLine\<close>: distance to the segment, projection parameter clamped to [0,1].\<close>

definition distPointLine :: "Pt \<Rightarrow> Pt \<Rightarrow> Pt \<Rightarrow> real" where
  "distPointLine pt start en =
     (let sx = fst start; sy = snd start; ex = fst en; ey = snd en;
          px = fst pt; py = snd pt;
          dx = ex - sx; dy = ey - sy
      in if dx = 0 \<and> dy = 0 then hypot (px - sx) (py - sy)
         else let t = ((px - sx) * dx + (py - sy) * dy) / (dx * dx + dy * dy);
                  t' = max 0 (min 1 t)
              in hypot (px - (sx + t' * dx)) (py - (sy + t' * dy)))"

text \<open>
  The scan of \<^verbatim>\<open>rdp\<close>: \<^verbatim>\<open>for (let i = 1; i < points.length - 1; i++)\<close> with the
  running pair \<open>(maxDist, index)\<close>, which starts at \<open>(0, 0)\<close> and moves only on a
  strictly larger distance.
\<close>

definition rdpScan :: "Pt list \<Rightarrow> real \<times> nat" where
  "rdpScan points =
     fold (\<lambda>i (maxDist, index).
             let d = distPointLine (points ! i) (points ! 0) (points ! (length points - 1))
             in if d > maxDist then (d, i) else (maxDist, index))
          [1 ..< length points - 1] (0, 0)"

lemma rdpScan_fold_index:
  "snd (fold (\<lambda>i (m, k). let d = f i in if d > m then (d, i) else (m, k)) is (m0, k0))
     \<in> insert k0 (set is)"
  by (induction "is" arbitrary: m0 k0) (auto simp: Let_def)

lemma rdpScan_index: "snd (rdpScan points) = 0 \<or>
  (1 \<le> snd (rdpScan points) \<and> snd (rdpScan points) < length points - 1)"
  unfolding rdpScan_def
  using rdpScan_fold_index [of "\<lambda>i. distPointLine (points ! i) (points ! 0)
     (points ! (length points - 1))" "[1 ..< length points - 1]" 0 0]
  by auto

text \<open>
  \<^verbatim>\<open>rdp\<close>. With \<open>maxDist > epsilon\<close> and \<open>index = 0\<close> (possible only for a negative
  \<open>epsilon\<close>) the second recursive call is \<^verbatim>\<open>rdp(points.slice(0), epsilon)\<close>, the call
  itself: the recursion never ends and the engine stops it with a \<^verbatim>\<open>RangeError\<close>.
\<close>

function rdp :: "Pt list \<Rightarrow> real \<Rightarrow> error + Pt list" where
  "rdp points epsilon =
     (if length points < 3 then Inr points
      else let maxDist = fst (rdpScan points); index = snd (rdpScan points)
           in if maxDist > epsilon then
                (if index = 0 then Inl RangeError
                 else case rdp (take (index + 1) points) epsilon of
                        Inl e \<Rightarrow> Inl e
                      | Inr left \<Rightarrow>
                          (case rdp (drop index points) epsilon of
                             Inl e \<Rightarrow> Inl e
                           | Inr right \<Rightarrow> Inr (butlast left @ right)))
              else Inr [points ! 0, points ! (length points - 1)])"
  by pat_completeness auto
termination
proof (relation "measure (\<lambda>(points, epsilon). length points)", goal_cases)
  case 1
  show ?case by simp
next
  case (2 points epsilon maxDist index)
  then show ?case using rdpScan_index [of points] by auto
next
  case (3 points epsilon maxDist index left)
  then show ?case using rdpScan_index [of points] by auto
qed

declare rdp.simps [simp del]


text \<open>
  The same scan, read along the list of interior points instead of their indices:
  \<open>firstMax f xs i acc\<close> visits \<open>xs\<close> from index \<open>i\<close> on and keeps the first element
  whose \<open>f\<close> is strictly above everything before it. It is used to reason about
  \<open>rdpScan\<close>; the program has no function of this name.
\<close>

fun firstMax :: "('a \<Rightarrow> real) \<Rightarrow> 'a list \<Rightarrow> nat \<Rightarrow> real \<times> nat \<Rightarrow> real \<times> nat" where
  "firstMax f [] i acc = acc"
| "firstMax f (x # xs) i acc =
     firstMax f xs (Suc i) (if f x > fst acc then (f x, i) else acc)"

section \<open>Cubic Bezier fitting (Schneider)\<close>

subsection \<open>Vector helpers\<close>

definition add :: "Pt \<Rightarrow> Pt \<Rightarrow> Pt" where
  "add a b = (fst a + fst b, snd a + snd b)"

definition sub :: "Pt \<Rightarrow> Pt \<Rightarrow> Pt" where
  "sub a b = (fst a - fst b, snd a - snd b)"

definition mul :: "Pt \<Rightarrow> real \<Rightarrow> Pt" where
  "mul a s = (fst a * s, snd a * s)"

definition dot :: "Pt \<Rightarrow> Pt \<Rightarrow> real" where
  "dot a b = fst a * fst b + snd a * snd b"

definition len :: "Pt \<Rightarrow> real" where
  "len v = hypot (fst v) (snd v)"

definition normalizePt :: "Pt \<Rightarrow> Pt" where
  "normalizePt v = (let l = len v in if l = 0 then (0, 0) else (fst v / l, snd v / l))"

subsection \<open>Bezier evaluation\<close>

definition p0 :: "BezierCtrl \<Rightarrow> Pt" where "p0 ctrl = fst ctrl"
definition c1 :: "BezierCtrl \<Rightarrow> Pt" where "c1 ctrl = fst (snd ctrl)"
definition c2 :: "BezierCtrl \<Rightarrow> Pt" where "c2 ctrl = fst (snd (snd ctrl))"
definition p3 :: "BezierCtrl \<Rightarrow> Pt" where "p3 ctrl = snd (snd (snd ctrl))"

definition bezierQ :: "BezierCtrl \<Rightarrow> real \<Rightarrow> Pt" where
  "bezierQ ctrl t =
     (let mt = 1 - t; mt2 = mt * mt; t2 = t * t;
          a = mt2 * mt; b = 3 * mt2 * t; c = 3 * mt * t2; d = t2 * t
      in (a * fst (p0 ctrl) + b * fst (c1 ctrl) + c * fst (c2 ctrl) + d * fst (p3 ctrl),
          a * snd (p0 ctrl) + b * snd (c1 ctrl) + c * snd (c2 ctrl) + d * snd (p3 ctrl)))"

definition bezierQPrime :: "BezierCtrl \<Rightarrow> real \<Rightarrow> Pt" where
  "bezierQPrime ctrl t =
     (let mt = 1 - t;
          a = - 3 * mt * mt; b = 3 * mt * mt - 6 * mt * t;
          c = 6 * mt * t - 3 * t * t; d = 3 * t * t
      in (a * fst (p0 ctrl) + b * fst (c1 ctrl) + c * fst (c2 ctrl) + d * fst (p3 ctrl),
          a * snd (p0 ctrl) + b * snd (c1 ctrl) + c * snd (c2 ctrl) + d * snd (p3 ctrl)))"

definition bezierQPrime2 :: "BezierCtrl \<Rightarrow> real \<Rightarrow> Pt" where
  "bezierQPrime2 ctrl t =
     (let mt = 1 - t;
          a = 6 * mt; b = - 12 * mt + 6 * t; c = 6 * mt - 12 * t; d = 6 * t
      in (a * fst (p0 ctrl) + b * fst (c1 ctrl) + c * fst (c2 ctrl) + d * fst (p3 ctrl),
          a * snd (p0 ctrl) + b * snd (c1 ctrl) + c * snd (c2 ctrl) + d * snd (p3 ctrl)))"

subsection \<open>Parameterization\<close>

text \<open>
  \<^verbatim>\<open>chordLengthParameterize\<close>: \<open>u\<close> starts as \<open>[0]\<close> and grows by one cumulative
  length per index \<open>1 \<le> i < points.length\<close>.
\<close>

definition chordLengthParameterize :: "Pt list \<Rightarrow> real list" where
  "chordLengthParameterize points =
     (let u = fold (\<lambda>i u. u @ [u ! (i - 1) + len (sub (points ! i) (points ! (i - 1)))])
                   [1 ..< length points] [0];
          total = u ! (length u - 1)
      in if total = 0 then map (\<lambda>x. 0) u else map (\<lambda>x. x / total) u)"

definition newtonRaphsonRootFind :: "BezierCtrl \<Rightarrow> Pt \<Rightarrow> real \<Rightarrow> real" where
  "newtonRaphsonRootFind bezier point u =
     (let q = bezierQ bezier u; q1 = bezierQPrime bezier u; q2 = bezierQPrime2 bezier u;
          numerator = dot (sub q point) q1;
          denominator = dot q1 q1 + dot (sub q point) q2
      in if denominator = 0 then u else u - numerator / denominator)"

definition reparameterize :: "Pt list \<Rightarrow> real list \<Rightarrow> BezierCtrl \<Rightarrow> real list" where
  "reparameterize points u bezier =
     map (\<lambda>i. newtonRaphsonRootFind bezier (points ! i) (u ! i)) [0 ..< length points]"

subsection \<open>Fitting\<close>

text \<open>
  \<^verbatim>\<open>generateBezier\<close>. The loop state is \<open>((c00, c01, c10, c11), (x0, x1))\<close>; the
  loop runs over the indices of \<open>u\<close>.
\<close>

definition generateBezier :: "Pt list \<Rightarrow> real list \<Rightarrow> Pt \<Rightarrow> Pt \<Rightarrow> BezierCtrl" where
  "generateBezier points u leftTan rightTan =
     (let P0 = points ! 0; P3 = points ! (length points - 1);
          (c00, c01, c10, c11, x0, x1) =
            fold (\<lambda>i (c00, c01, c10, c11, x0, x1).
                    let ui = u ! i;
                        b0 = (1 - ui) ^ 3; b1 = 3 * ui * (1 - ui) ^ 2;
                        b2 = 3 * ui * ui * (1 - ui); b3 = ui ^ 3;
                        a1 = mul leftTan b1; a2 = mul rightTan b2;
                        tmp = sub (points ! i) (add (mul P0 b0) (mul P3 b3))
                    in (c00 + dot a1 a1, c01 + dot a1 a2, c10 + dot a1 a2, c11 + dot a2 a2,
                        x0 + dot a1 tmp, x1 + dot a2 tmp))
                 [0 ..< length u] (0, 0, 0, 0, 0, 0);
          detC0C1 = c00 * c11 - c10 * c01;
          alphaL = (if \<bar>detC0C1\<bar> > 1 / 1000000 then (x0 * c11 - x1 * c01) / detC0C1 else 0);
          alphaR = (if \<bar>detC0C1\<bar> > 1 / 1000000 then (c00 * x1 - c10 * x0) / detC0C1 else 0);
          segLength = len (sub P3 P0);
          epsilon = 1 / 1000000;
          fallback = (alphaL < epsilon \<or> alphaR < epsilon);
          alphaL' = (if fallback then segLength / 3 else alphaL);
          alphaR' = (if fallback then segLength / 3 else alphaR)
      in (P0, add P0 (mul leftTan alphaL'), add P3 (mul rightTan alphaR'), P3))"

text \<open>\<^verbatim>\<open>computeMaxError\<close> returns \<open>(maxDist, split)\<close>.\<close>

definition computeMaxError :: "Pt list \<Rightarrow> BezierCtrl \<Rightarrow> real list \<Rightarrow> real \<times> nat" where
  "computeMaxError points bezier u =
     fold (\<lambda>i (maxDist, split).
             let q = bezierQ bezier (u ! i); d = len (sub q (points ! i))
             in if d > maxDist then (d, i) else (maxDist, split))
          [0 ..< length points] (0, length points div 2)"

text \<open>
  The reparameterization loop of \<^verbatim>\<open>fitCubic\<close>,
  \<^verbatim>\<open>for (let iter = 0; iter < 5; iter++)\<close>, with the number of rounds left as first
  argument. \<open>Inl (bezier, u)\<close> is the early \<^verbatim>\<open>return [bezier]\<close> (with the parameters the
  error was measured at), \<open>Inr split\<close> the split index the loop leaves behind.
\<close>

fun reparamLoop :: "nat \<Rightarrow> Pt list \<Rightarrow> Pt \<Rightarrow> Pt \<Rightarrow> real \<Rightarrow> real list \<Rightarrow> BezierCtrl \<Rightarrow> nat
                      \<Rightarrow> (BezierCtrl \<times> real list) + nat" where
  "reparamLoop 0 points leftTan rightTan err u bezier split = Inr split"
| "reparamLoop (Suc n) points leftTan rightTan err u bezier split =
     (let u' = reparameterize points u bezier;
          bezier' = generateBezier points u' leftTan rightTan;
          maxError = fst (computeMaxError points bezier' u');
          split' = snd (computeMaxError points bezier' u')
      in if maxError < err then Inl (bezier', u')
         else reparamLoop n points leftTan rightTan err u' bezier' split')"

text \<open>
  \<^verbatim>\<open>fitCubic\<close>. The engine raises a \<^verbatim>\<open>TypeError\<close> where a vector helper reads a
  coordinate of \<^verbatim>\<open>undefined\<close>: on the empty array (\<^verbatim>\<open>points[0]\<close>), and on a
  one-point array that reaches the split, where the clamped index is \<open>-1\<close> and
  \<^verbatim>\<open>points[split - 1]\<close> is \<^verbatim>\<open>points[-2]\<close>.
\<close>

function fitCubic :: "Pt list \<Rightarrow> Pt \<Rightarrow> Pt \<Rightarrow> real \<Rightarrow> nat \<Rightarrow> error + BezierCtrl list" where
  "fitCubic points leftTan rightTan err depth =
     (if points = [] then Inl TypeError
      else if length points = 2 \<or> depth > 50 then
        (let dist = len (sub (points ! 0) (points ! (length points - 1))) / 3
         in Inr [(points ! 0, add (points ! 0) (mul leftTan dist),
                  add (points ! (length points - 1)) (mul rightTan dist),
                  points ! (length points - 1))])
      else
        let u = chordLengthParameterize points;
            bezier = generateBezier points u leftTan rightTan;
            maxError = fst (computeMaxError points bezier u);
            split = snd (computeMaxError points bezier u)
        in if maxError < err then Inr [bezier]
           else case (if maxError < err * err
                      then reparamLoop 5 points leftTan rightTan err u bezier split
                      else Inr split) of
                  Inl (bezier', u') \<Rightarrow> Inr [bezier']
                | Inr split' \<Rightarrow>
                    if length points < 3 then Inl TypeError
                    else
                      let split1 = (if split' \<le> 0 then 1 else split');
                          split2 = (if split1 \<ge> length points - 1 then length points - 2
                                    else split1);
                          centerTan = normalizePt (sub (points ! (split2 - 1))
                                                       (points ! (split2 + 1)))
                      in case fitCubic (take (split2 + 1) points) leftTan centerTan err
                                (depth + 1) of
                           Inl e \<Rightarrow> Inl e
                         | Inr left \<Rightarrow>
                             (case fitCubic (drop split2 points) (mul centerTan (- 1)) rightTan
                                     err (depth + 1) of
                                Inl e \<Rightarrow> Inl e
                              | Inr right \<Rightarrow> Inr (left @ right)))"
  by pat_completeness auto
termination
  by (relation "measure (\<lambda>(points, leftTan, rightTan, err, depth). length points)")
     (auto split: if_splits)

declare fitCubic.simps [simp del]

definition fitCurve :: "Pt list \<Rightarrow> real \<Rightarrow> error + BezierCtrl list" where
  "fitCurve points err =
     (if length points < 2 then Inr []
      else let leftTan = normalizePt (sub (points ! 1) (points ! 0));
               rightTan = normalizePt (sub (points ! (length points - 2))
                                           (points ! (length points - 1)))
           in fitCubic points leftTan rightTan err 0)"

text \<open>Consecutive segments share their joint.\<close>

fun chained :: "BezierCtrl list \<Rightarrow> bool" where
  "chained (s # t # r) = (p3 s = p0 t \<and> chained (t # r))"
| "chained r = True"

text \<open>
  Two views of the body of \<open>fitCubic\<close>, used to state its unfolding in the proofs:
  \<open>fitAttempt\<close> is everything between the base case and the split (\<open>Inl\<close>: a
  segment was accepted, with the parameters it was measured at; \<open>Inr\<close>: the split index
  left behind), \<open>clampSplit\<close> the two clamping assignments.
\<close>

definition fitAttempt :: "Pt list \<Rightarrow> Pt \<Rightarrow> Pt \<Rightarrow> real \<Rightarrow> (BezierCtrl \<times> real list) + nat" where
  "fitAttempt points leftTan rightTan err =
     (let u = chordLengthParameterize points;
          bezier = generateBezier points u leftTan rightTan;
          maxError = fst (computeMaxError points bezier u);
          split = snd (computeMaxError points bezier u)
      in if maxError < err then Inl (bezier, u)
         else if maxError < err * err
              then reparamLoop 5 points leftTan rightTan err u bezier split
              else Inr split)"

definition clampSplit :: "nat \<Rightarrow> nat \<Rightarrow> nat" where
  "clampSplit n split =
     (let split1 = (if split \<le> 0 then 1 else split)
      in if split1 \<ge> n - 1 then n - 2 else split1)"

text \<open>
  \<open>fitCubic\<close> once more, with a record of where each segment comes from: the
  sub-polyline it was fitted to, the parameters its error was last measured at, the
  recursion depth, and the branch that returned it (\<open>TwoPoints\<close> and \<open>DepthCap\<close> for the base case,
  \<open>FirstFit\<close> for the acceptance on the chord-length parameters, \<open>Refit\<close> for an
  acceptance inside the reparameterization loop). Erasing the record gives \<open>fitCubic\<close>
  back (\<open>fitCubicTrace_erase\<close> below).
\<close>

datatype origin = TwoPoints | DepthCap | FirstFit | Refit

record fitted =
  seg :: BezierCtrl
  piece :: "Pt list"
  params :: "real list"
  origin :: origin
  level :: nat

function fitCubicTrace :: "Pt list \<Rightarrow> Pt \<Rightarrow> Pt \<Rightarrow> real \<Rightarrow> nat \<Rightarrow> error + fitted list" where
  "fitCubicTrace points leftTan rightTan err depth =
     (if points = [] then Inl TypeError
      else if length points = 2 \<or> depth > 50 then
        (let dist = len (sub (points ! 0) (points ! (length points - 1))) / 3
         in Inr [\<lparr>seg = (points ! 0, add (points ! 0) (mul leftTan dist),
                          add (points ! (length points - 1)) (mul rightTan dist),
                          points ! (length points - 1)),
                   piece = points,
                   params = chordLengthParameterize points,
                   origin = (if length points = 2 then TwoPoints else DepthCap),
                   level = depth\<rparr>])
      else
        let u = chordLengthParameterize points;
            bezier = generateBezier points u leftTan rightTan;
            maxError = fst (computeMaxError points bezier u);
            split = snd (computeMaxError points bezier u)
        in if maxError < err
           then Inr [\<lparr>seg = bezier, piece = points, params = u, origin = FirstFit,
                       level = depth\<rparr>]
           else case (if maxError < err * err
                      then reparamLoop 5 points leftTan rightTan err u bezier split
                      else Inr split) of
                  Inl (bezier', u') \<Rightarrow>
                    Inr [\<lparr>seg = bezier', piece = points, params = u', origin = Refit,
                          level = depth\<rparr>]
                | Inr split' \<Rightarrow>
                    if length points < 3 then Inl TypeError
                    else
                      let split1 = (if split' \<le> 0 then 1 else split');
                          split2 = (if split1 \<ge> length points - 1 then length points - 2
                                    else split1);
                          centerTan = normalizePt (sub (points ! (split2 - 1))
                                                       (points ! (split2 + 1)))
                      in case fitCubicTrace (take (split2 + 1) points) leftTan centerTan err
                                (depth + 1) of
                           Inl e \<Rightarrow> Inl e
                         | Inr left \<Rightarrow>
                             (case fitCubicTrace (drop split2 points) (mul centerTan (- 1))
                                     rightTan err (depth + 1) of
                                Inl e \<Rightarrow> Inl e
                              | Inr right \<Rightarrow> Inr (left @ right)))"
  by pat_completeness auto
termination
  by (relation "measure (\<lambda>(points, leftTan, rightTan, err, depth). length points)")
     (auto split: if_splits)

declare fitCubicTrace.simps [simp del]

definition fitCurveTrace :: "Pt list \<Rightarrow> real \<Rightarrow> error + fitted list" where
  "fitCurveTrace points err =
     (if length points < 2 then Inr []
      else let leftTan = normalizePt (sub (points ! 1) (points ! 0));
               rightTan = normalizePt (sub (points ! (length points - 2))
                                           (points ! (length points - 1)))
           in fitCubicTrace points leftTan rightTan err 0)"

text \<open>What the record of a returned segment has to satisfy, for a tolerance \<open>err\<close>.\<close>

definition fittedOk :: "real \<Rightarrow> Pt list \<Rightarrow> fitted \<Rightarrow> bool" where
  "fittedOk err points f \<longleftrightarrow>
     sublist (piece f) points \<and> p0 (seg f) = hd (piece f) \<and> p3 (seg f) = last (piece f)
     \<and> (if origin f = DepthCap then 50 < level f
         else fst (computeMaxError (piece f) (seg f) (params f)) < err)
     \<and> (origin f \<noteq> Refit \<longrightarrow> params f = chordLengthParameterize (piece f))"

section \<open>Marching squares\<close>

text \<open>
  \<^verbatim>\<open>ptKey\<close> formats the two rounded coordinates into a string; two such strings are equal
  exactly when the two pairs of integers are, so a key is the pair. \<^verbatim>\<open>Math.round\<close> rounds
  half up, as \<^const>\<open>round\<close> does.
\<close>

type_synonym Key = "int \<times> int"

type_synonym Segment = "Key \<times> Key \<times> Pt \<times> Pt"

definition ptKey :: "real \<Rightarrow> real \<Rightarrow> Key" where
  "ptKey x y = (round (x * 1000), round (y * 1000))"

text \<open>\<^verbatim>\<open>isOn\<close>: a read past the end of the mask is \<^verbatim>\<open>undefined\<close>, which counts as off.\<close>

definition isOn :: "bool list \<Rightarrow> nat \<Rightarrow> nat \<Rightarrow> nat \<Rightarrow> bool" where
  "isOn msk width x y = (y * width + x < length msk \<and> msk ! (y * width + x))"

text \<open>The body of the cell loop: the segments that the cell at \<open>(x, y)\<close> pushes.\<close>

definition cellSegments :: "bool list \<Rightarrow> nat \<Rightarrow> nat \<Rightarrow> nat \<Rightarrow> Segment list" where
  "cellSegments msk width x y =
     (let tl = (if isOn msk width x y then 1 else 0 :: nat);
          tr = (if isOn msk width (x + 1) y then 1 else 0);
          br = (if isOn msk width (x + 1) (y + 1) then 1 else 0);
          bl = (if isOn msk width x (y + 1) then 1 else 0);
          c = 8 * tl + 4 * tr + 2 * br + bl
      in if c = 0 \<or> c = 15 then []
         else
           let top = (real x + 1 / 2, real y);
               right = (real x + 1, real y + 1 / 2);
               bottom = (real x + 1 / 2, real y + 1);
               left = (real x, real y + 1 / 2);
               crossings = (if tl \<noteq> tr then [top] else []) @ (if tr \<noteq> br then [right] else [])
                         @ (if br \<noteq> bl then [bottom] else []) @ (if bl \<noteq> tl then [left] else [])
           in if length crossings = 2 then
                [(ptKey (fst (crossings ! 0)) (snd (crossings ! 0)),
                  ptKey (fst (crossings ! 1)) (snd (crossings ! 1)),
                  crossings ! 0, crossings ! 1)]
              else if length crossings = 4 then
                (if c = 5 then
                   [(ptKey (fst top) (snd top), ptKey (fst right) (snd right), top, right),
                    (ptKey (fst bottom) (snd bottom), ptKey (fst left) (snd left), bottom, left)]
                 else if c = 10 then
                   [(ptKey (fst top) (snd top), ptKey (fst left) (snd left), top, left),
                    (ptKey (fst bottom) (snd bottom), ptKey (fst right) (snd right), bottom, right)]
                 else [])
              else [])"

text \<open>The two nested loops, \<open>y\<close> outside and \<open>x\<close> inside, over the cells of the grid.\<close>

definition cellScan :: "bool list \<Rightarrow> nat \<Rightarrow> nat \<Rightarrow> Segment list" where
  "cellScan msk width height =
     concat (map (\<lambda>y. concat (map (\<lambda>x. cellSegments msk width x y) [0 ..< width - 1]))
                 [0 ..< height - 1])"

text \<open>
  The two \<^verbatim>\<open>Map\<close>s are association lists in insertion order. \<open>neighborsOf\<close> is
  \<^verbatim>\<open>adj.get(k)\<close>, with the empty list for a missing key where the program has just set it.
\<close>

type_synonym Adj = "(Key \<times> Key list) list"

definition neighborsOf :: "Adj \<Rightarrow> Key \<Rightarrow> Key list" where
  "neighborsOf adj k = (case map_of adj k of None \<Rightarrow> [] | Some ns \<Rightarrow> ns)"

definition addSegment :: "Segment \<Rightarrow> Adj \<times> (Key \<times> Pt) list \<Rightarrow> Adj \<times> (Key \<times> Pt) list" where
  "addSegment s st =
     (let k1 = fst s; k2 = fst (snd s); p1 = fst (snd (snd s)); p2 = snd (snd (snd s));
          adj = fst st;
          ptLookup = AList.update k2 p2 (AList.update k1 p1 (snd st));
          adj1 = (if map_of adj k1 = None then AList.update k1 [] adj else adj);
          adj2 = (if map_of adj1 k2 = None then AList.update k2 [] adj1 else adj1);
          adj3 = AList.update k1 (neighborsOf adj2 k1 @ [k2]) adj2;
          adj4 = AList.update k2 (neighborsOf adj3 k2 @ [k1]) adj3
      in (adj4, ptLookup))"

definition buildAdjacency :: "Segment list \<Rightarrow> Adj \<times> (Key \<times> Pt) list" where
  "buildAdjacency segments = fold addSegment segments ([], [])"

text \<open>
  \<^verbatim>\<open>edgeId\<close> orders the two key strings and joins them with a bar. The identity of the
  edge is the unordered pair of keys, whatever strict total order is used; here it is the
  lexicographic order of the integer pairs.
\<close>

definition keyLess :: "Key \<Rightarrow> Key \<Rightarrow> bool" where
  "keyLess a b = (fst a < fst b \<or> (fst a = fst b \<and> snd a < snd b))"

definition edgeId :: "Key \<Rightarrow> Key \<Rightarrow> Key \<times> Key" where
  "edgeId a b = (if keyLess a b then (a, b) else (b, a))"

definition adjEdges :: "Adj \<Rightarrow> (Key \<times> Key) set" where
  "adjEdges adj = (\<Union>(a, ns) \<in> set adj. edgeId a ` set ns)"

lemma adjEdges_finite: "finite (adjEdges adj)"
  by (auto simp: adjEdges_def)

lemma adjEdges_member:
  "map_of adj a = Some ns \<Longrightarrow> b \<in> set ns \<Longrightarrow> edgeId a b \<in> adjEdges adj"
proof -
  assume "map_of adj a = Some ns" "b \<in> set ns"
  then have "(a, ns) \<in> set adj" "edgeId a b \<in> edgeId a ` set ns"
    by (auto dest: map_of_SomeD)
  then show ?thesis unfolding adjEdges_def by blast
qed

text \<open>
  The \<^verbatim>\<open>while (true)\<close> loop of the path walk. The state is the set of visited edges (a
  list without repetition), the path and the last two keys; the result is the state at
  the \<^verbatim>\<open>break\<close>. The path is never empty: it starts as \<open>[k1, k2]\<close>.
\<close>

function walk :: "Adj \<Rightarrow> (Key \<times> Key) list \<Rightarrow> Key list \<Rightarrow> Key \<Rightarrow> Key
                   \<Rightarrow> (Key \<times> Key) list \<times> Key list" where
  "walk adj visitedEdges path prev cur =
     (case map_of adj cur of
        None \<Rightarrow> (visitedEdges, path)
      | Some neighbors \<Rightarrow>
          if neighbors = [] then (visitedEdges, path)
          else
            let next = (if length neighbors = 1 then neighbors ! 0
                        else if neighbors ! 0 \<noteq> prev then neighbors ! 0 else neighbors ! 1)
            in if next = path ! 0 then (visitedEdges, path @ [next])
               else if edgeId cur next \<in> set visitedEdges then (visitedEdges, path)
               else walk adj (visitedEdges @ [edgeId cur next]) (path @ [next]) cur next)"
  by pat_completeness auto
termination
proof (relation "measure (\<lambda>(adj, visitedEdges, path, prev, cur).
                    card (adjEdges adj - set visitedEdges))", goal_cases)
  case 1
  show ?case by simp
next
  case (2 adj visitedEdges path prev cur neighbors nxt)
  have "nxt \<in> set neighbors"
    using 2(2,3) by (cases neighbors; cases "tl neighbors") (auto split: if_splits)
  then have e: "edgeId cur nxt \<in> adjEdges adj - set visitedEdges"
    using 2(1,5) adjEdges_member by auto
  have f: "finite (adjEdges adj - set visitedEdges)"
    using adjEdges_finite [of adj] by simp
  have "adjEdges adj - set (visitedEdges @ [edgeId cur nxt])
      = (adjEdges adj - set visitedEdges) - {edgeId cur nxt}" by auto
  then have "card (adjEdges adj - set (visitedEdges @ [edgeId cur nxt]))
      < card (adjEdges adj - set visitedEdges)"
    using card_Diff1_less [OF f e] by simp
  then show ?case by simp
qed

declare walk.simps [simp del]

text \<open>
  The loop over the segments that starts a path at every segment whose edge is not visited
  yet. The state is the visited edges and the paths found so far, as lists of keys.
\<close>

definition startPath :: "Adj \<Rightarrow> Segment \<Rightarrow> (Key \<times> Key) list \<times> Key list list
                           \<Rightarrow> (Key \<times> Key) list \<times> Key list list" where
  "startPath adj s st =
     (let k1 = fst s; k2 = fst (snd s); visitedEdges = fst st; paths = snd st;
          eid = edgeId k1 k2
      in if eid \<in> set visitedEdges then st
         else let r = walk adj (visitedEdges @ [eid]) [k1, k2] k1 k2
              in (fst r, paths @ [snd r]))"

definition walkPaths :: "Segment list \<Rightarrow> Key list list" where
  "walkPaths segments =
     snd (fold (startPath (fst (buildAdjacency segments))) segments ([], []))"

text \<open>
  \<^verbatim>\<open>path.map((k) => ptLookup.get(k)!)\<close>. Every key of a path is an end of a segment, so
  the lookup finds it.
\<close>

definition pathPoints :: "(Key \<times> Pt) list \<Rightarrow> Key list \<Rightarrow> Pt list" where
  "pathPoints ptLookup path = map (\<lambda>k. the (map_of ptLookup k)) path"

definition tracePaths :: "bool list \<Rightarrow> nat \<Rightarrow> nat \<Rightarrow> Pt list list" where
  "tracePaths msk width height =
     (let segments = cellScan msk width height
      in map (pathPoints (snd (buildAdjacency segments))) (walkPaths segments))"

text \<open>
  \<^verbatim>\<open>paths.sort((a, b) => b.length - a.length)\<close> is a stable sort, longest first.
\<close>

definition sortByLength :: "'a list list \<Rightarrow> 'a list list" where
  "sortByLength paths = sort_key (\<lambda>p. - int (length p)) paths"

definition marchingSquares :: "bool list \<Rightarrow> nat \<Rightarrow> nat \<Rightarrow> nat \<Rightarrow> real \<Rightarrow> Pt list" where
  "marchingSquares msk width height maxContours minLength =
     (let paths = tracePaths msk width height
      in if length paths = 0 then []
         else let filtered = filter (\<lambda>p. real (length p) \<ge> minLength) (sortByLength paths)
              in if length filtered = 0 then []
                 else if maxContours \<le> 1 then filtered ! 0
                 else filtered ! 0)"

definition marchingSquaresMulti :: "bool list \<Rightarrow> nat \<Rightarrow> nat \<Rightarrow> nat \<Rightarrow> real \<Rightarrow> Pt list list" where
  "marchingSquaresMulti msk width height maxContours minLength =
     take maxContours (filter (\<lambda>p. real (length p) \<ge> minLength)
                              (sortByLength (tracePaths msk width height)))"

text \<open>The edges a path runs along, in order.\<close>

definition pathEdges :: "Key list \<Rightarrow> (Key \<times> Key) list" where
  "pathEdges path = map (\<lambda>i. edgeId (path ! i) (path ! (i + 1))) [0 ..< length path - 1]"

section \<open>Otsu threshold\<close>






section \<open>Canny edge detection\<close>

text \<open>
  \<^verbatim>\<open>ImageData\<close>: \<open>data\<close> holds four bytes (red, green, blue, alpha) per pixel, row by
  row. The float arrays of the detector are lists of reals of length \<open>w * h\<close>.
\<close>

record ImageData =
  data :: "nat list"
  width :: nat
  height :: nat

definition imageToGray :: "ImageData \<Rightarrow> real list" where
  "imageToGray imageData =
     map (\<lambda>i. 299 / 1000 * real (data imageData ! (i * 4))
              + 587 / 1000 * real (data imageData ! (i * 4 + 1))
              + 114 / 1000 * real (data imageData ! (i * 4 + 2)))
         [0 ..< width imageData * height imageData]"

text \<open>\<^verbatim>\<open>Math.min(w - 1, Math.max(0, i))\<close>, the clamped sample index.\<close>

definition clampIndex :: "nat \<Rightarrow> int \<Rightarrow> nat" where
  "clampIndex w i = nat (min (int w - 1) (max 0 i))"

text \<open>
  \<^verbatim>\<open>gaussianBlur\<close>, in its three blocks: the kernel, the horizontal pass and the vertical
  pass. Each pass fills its array row by row. A negative kernel size makes
  \<^verbatim>\<open>new Float32Array(size)\<close> raise a \<^verbatim>\<open>RangeError\<close>.
\<close>

definition gaussKernel :: "real \<Rightarrow> int \<Rightarrow> nat \<Rightarrow> real list" where
  "gaussKernel sigma radius n =
     (let raw = map (\<lambda>i. let x = real_of_int (int i - radius)
                          in exp (- (x * x) / (2 * sigma * sigma))) [0 ..< n];
          sum = fold (\<lambda>i s. s + raw ! i) [0 ..< n] 0
      in map (\<lambda>v. v / sum) raw)"

definition horizontalPass :: "real list \<Rightarrow> nat \<Rightarrow> nat \<Rightarrow> int \<Rightarrow> real list \<Rightarrow> nat \<Rightarrow> real list" where
  "horizontalPass src w h radius kern n =
     concat (map (\<lambda>y. map (\<lambda>x.
               fold (\<lambda>k v. v + src ! (y * w + clampIndex w (int x + int k - radius))
                                * kern ! k) [0 ..< n] 0)
             [0 ..< w]) [0 ..< h])"

definition verticalPass :: "real list \<Rightarrow> nat \<Rightarrow> nat \<Rightarrow> int \<Rightarrow> real list \<Rightarrow> nat \<Rightarrow> real list" where
  "verticalPass tmp w h radius kern n =
     concat (map (\<lambda>y. map (\<lambda>x.
               fold (\<lambda>k v. v + tmp ! (clampIndex h (int y + int k - radius) * w + x)
                                * kern ! k) [0 ..< n] 0)
             [0 ..< w]) [0 ..< h])"

definition gaussianBlur :: "real list \<Rightarrow> nat \<Rightarrow> nat \<Rightarrow> real \<Rightarrow> error + real list" where
  "gaussianBlur src w h sigma =
     (let radius = \<lceil>sigma * 3\<rceil>;
          size = radius * 2 + 1
      in if size < 0 then Inl RangeError
         else
           let kern = gaussKernel sigma radius (nat size);
               tmp = horizontalPass src w h radius kern (nat size);
               dst = verticalPass tmp w h radius kern (nat size)
           in Inr dst)"

text \<open>
  \<^verbatim>\<open>sobelGradients\<close>. The loops run over the pixels that are not on the border; the
  border keeps the zero the arrays are created with. \<^verbatim>\<open>Math.atan2(gy, gx)\<close> is the
  argument of the complex number \<open>gx + i gy\<close>.
\<close>

definition interior :: "nat \<Rightarrow> nat \<Rightarrow> nat \<Rightarrow> nat \<Rightarrow> bool" where
  "interior w h x y = (1 \<le> y \<and> y + 1 < h \<and> 1 \<le> x \<and> x + 1 < w)"

definition sobelGx :: "real list \<Rightarrow> nat \<Rightarrow> nat \<Rightarrow> nat \<Rightarrow> real" where
  "sobelGx gray w x y =
     - gray ! ((y - 1) * w + (x - 1)) + gray ! ((y - 1) * w + (x + 1))
     - 2 * gray ! (y * w + (x - 1)) + 2 * gray ! (y * w + (x + 1))
     - gray ! ((y + 1) * w + (x - 1)) + gray ! ((y + 1) * w + (x + 1))"

definition sobelGy :: "real list \<Rightarrow> nat \<Rightarrow> nat \<Rightarrow> nat \<Rightarrow> real" where
  "sobelGy gray w x y =
     - gray ! ((y - 1) * w + (x - 1)) - 2 * gray ! ((y - 1) * w + x)
     - gray ! ((y - 1) * w + (x + 1))
     + gray ! ((y + 1) * w + (x - 1)) + 2 * gray ! ((y + 1) * w + x)
     + gray ! ((y + 1) * w + (x + 1))"

definition sobelGradients :: "real list \<Rightarrow> nat \<Rightarrow> nat \<Rightarrow> real list \<times> real list" where
  "sobelGradients gray w h =
     (concat (map (\<lambda>y. map (\<lambda>x. if interior w h x y
                                then hypot (sobelGx gray w x y) (sobelGy gray w x y) else 0)
                    [0 ..< w]) [0 ..< h]),
      concat (map (\<lambda>y. map (\<lambda>x. if interior w h x y
                                then Arg (Complex (sobelGx gray w x y) (sobelGy gray w x y))
                                else 0)
                    [0 ..< w]) [0 ..< h]))"

definition nonMaxSuppression :: "real list \<Rightarrow> real list \<Rightarrow> nat \<Rightarrow> nat \<Rightarrow> real list" where
  "nonMaxSuppression mag dir w h =
     concat (map (\<lambda>y. map (\<lambda>x.
        if \<not> interior w h x y then 0
        else
          let idx = y * w + x; m = mag ! idx
          in if m = 0 then 0
             else
               let angle0 = (dir ! idx * 180) / pi;
                   angle = (if angle0 < 0 then angle0 + 180 else angle0);
                   n1 = (if (angle \<ge> 0 \<and> angle < 45 / 2) \<or> (angle \<ge> 315 / 2 \<and> angle \<le> 180)
                         then mag ! (y * w + (x + 1))
                         else if angle \<ge> 45 / 2 \<and> angle < 135 / 2
                         then mag ! ((y - 1) * w + (x + 1))
                         else if angle \<ge> 135 / 2 \<and> angle < 225 / 2
                         then mag ! ((y - 1) * w + x)
                         else mag ! ((y - 1) * w + (x - 1)));
                   n2 = (if (angle \<ge> 0 \<and> angle < 45 / 2) \<or> (angle \<ge> 315 / 2 \<and> angle \<le> 180)
                         then mag ! (y * w + (x - 1))
                         else if angle \<ge> 45 / 2 \<and> angle < 135 / 2
                         then mag ! ((y + 1) * w + (x - 1))
                         else if angle \<ge> 135 / 2 \<and> angle < 225 / 2
                         then mag ! ((y + 1) * w + x)
                         else mag ! ((y + 1) * w + (x + 1)))
               in if m \<ge> n1 \<and> m \<ge> n2 then m else 0)
      [0 ..< w]) [0 ..< h])"

text \<open>
  \<^verbatim>\<open>hysteresis\<close>. \<open>strong\<close> is the \<^verbatim>\<open>Uint8Array\<close> (2 strong, 1 weak, 0 neither): a write
  past its end is ignored and a read past its end is \<^verbatim>\<open>undefined\<close>. \<open>classify\<close> is the
  thresholding loop, \<open>visit\<close> the body of the two neighbour loops for one offset, and
  \<open>promote\<close> the \<^verbatim>\<open>while (queue.length > 0)\<close> loop, which pops from the end of the queue.
\<close>

definition classify :: "real list \<Rightarrow> real \<Rightarrow> real \<Rightarrow> nat list \<times> nat list \<Rightarrow> nat list \<times> nat list" where
  "classify nms lowThresh highThresh st =
     fold (\<lambda>i (strong, queue).
             if nms ! i \<ge> highThresh then (strong[i := 2], queue @ [i])
             else if nms ! i \<ge> lowThresh then (strong[i := 1], queue)
             else (strong, queue))
          [0 ..< length nms] st"

definition visit :: "nat \<Rightarrow> nat \<Rightarrow> nat \<Rightarrow> nat \<Rightarrow> int \<times> int \<Rightarrow> nat list \<times> nat list \<Rightarrow> nat list \<times> nat list" where
  "visit w h x y d st =
     (let dx = fst d; dy = snd d; strong = fst st; queue = snd st;
          nx = int x + dx; ny = int y + dy
      in if nx < 0 \<or> nx \<ge> int w \<or> ny < 0 \<or> ny \<ge> int h then st
         else
           let ni = nat (ny * int w + nx)
           in if ni < length strong \<and> strong ! ni = 1 then (strong[ni := 2], queue @ [ni])
              else st)"

definition offsets :: "(int \<times> int) list" where
  "offsets = [(- 1, - 1), (0, - 1), (1, - 1), (- 1, 0), (1, 0), (- 1, 1), (0, 1), (1, 1)]"

lemma count_list_update:
  "i < length s \<Longrightarrow> s ! i = (1::nat) \<Longrightarrow> count_list (s[i := 2]) 1 + 1 = count_list s 1"
proof (induction s arbitrary: i)
  case Nil
  then show ?case by simp
next
  case (Cons a s)
  then show ?case by (cases i) auto
qed

lemma visit_measure:
  "count_list (fst (visit w h x y d st)) 1 + length (snd (visit w h x y d st))
     = count_list (fst st) 1 + length (snd st)"
  using count_list_update [of _ "fst st"]
  by (cases st) (auto simp: visit_def Let_def)

lemma visits_measure:
  "count_list (fst (fold (visit w h x y) ds st)) 1 + length (snd (fold (visit w h x y) ds st))
     = count_list (fst st) 1 + length (snd st)"
proof (induction ds arbitrary: st)
  case Nil
  show ?case by simp
next
  case (Cons a ds)
  show ?case
    using Cons [of "visit w h x y a st"] visit_measure [of w h x y a st] by simp
qed

function promote :: "nat \<Rightarrow> nat \<Rightarrow> nat list \<Rightarrow> nat list \<Rightarrow> nat list" where
  "promote w h strong queue =
     (if queue = [] then strong
      else
        let idx = last queue;
            x = idx mod w;
            y = (idx - x) div w;
            st = fold (visit w h x y) offsets (strong, butlast queue)
        in promote w h (fst st) (snd st))"
  by pat_completeness auto
termination
proof (relation "measure (\<lambda>(w, h, strong, queue). count_list strong 1 + length queue)",
       goal_cases)
  case 1
  show ?case by simp
next
  case (2 w h strong queue idx x y st)
  have "0 < length queue" using 2(1) by simp
  then show ?case
    using visits_measure [of w h x y offsets "(strong, butlast queue)"] 2(5)
    by (simp add: split_def)
qed

declare promote.simps [simp del]

definition hysteresis :: "real list \<Rightarrow> nat \<Rightarrow> nat \<Rightarrow> real \<Rightarrow> real \<Rightarrow> bool list" where
  "hysteresis nms w h lowRatio highRatio =
     (let maxMag = fold (\<lambda>i m. if nms ! i > m then nms ! i else m) [0 ..< length nms] 0;
          highThresh = maxMag * highRatio;
          lowThresh = maxMag * lowRatio;
          st = classify nms lowThresh highThresh (replicate (w * h) 0, [])
      in map (\<lambda>v. v = 2) (promote w h (fst st) (snd st)))"

definition cannyEdgeDetection :: "ImageData \<Rightarrow> real \<Rightarrow> real \<Rightarrow> real \<Rightarrow> error + bool list" where
  "cannyEdgeDetection imageData sigma lowRatio highRatio =
     (let w = width imageData; h = height imageData;
          gray = imageToGray imageData
      in case gaussianBlur gray w h sigma of
           Inl e \<Rightarrow> Inl e
         | Inr blurred \<Rightarrow>
             let g = sobelGradients blurred w h;
                 nms = nonMaxSuppression (fst g) (snd g) w h
             in Inr (hysteresis nms w h lowRatio highRatio))"

section \<open>The edge-based extraction of the orchestrator\<close>

datatype ImageKind = Alpha | Logo | Illustration | Photo

record ImageAnalysis =
  kind :: ImageKind
  hasAlpha :: bool
  uniqueColors :: nat
  colorEntropy :: real
  edgeDensity :: real
  contrastRatio :: real
  recommendedSigma :: real
  recommendedLow :: real
  recommendedHigh :: real

text \<open>
  \<^verbatim>\<open>fitContour\<close>; \<^verbatim>\<open>toSegments\<close> copies the four points of every segment into an object
  with the fields \<open>p0\<close>, \<open>c1\<close>, \<open>c2\<close>, \<open>p3\<close>, which is the same tuple here.
\<close>

definition fitContour :: "Pt list \<Rightarrow> real \<Rightarrow> real \<Rightarrow> error + BezierCtrl list" where
  "fitContour contour scale errorTolerance =
     (let scaled = map (\<lambda>p. (fst p * scale, snd p * scale)) contour
      in case rdp scaled (errorTolerance * (1 / 2)) of
           Inl e \<Rightarrow> Inl e
         | Inr simplified \<Rightarrow>
             if length simplified < 2 then Inr []
             else case fitCurve simplified errorTolerance of
                    Inl e \<Rightarrow> Inl e
                  | Inr fitted \<Rightarrow> if length fitted = 0 then Inr [] else Inr fitted)"

text \<open>The loop over the contours, which keeps the strokes that are not empty.\<close>

fun fitContours :: "Pt list list \<Rightarrow> real \<Rightarrow> real \<Rightarrow> error + BezierCtrl list list" where
  "fitContours [] scale tolerance = Inr []"
| "fitContours (contour # contours) scale tolerance =
     (case fitContour contour scale tolerance of
        Inl e \<Rightarrow> Inl e
      | Inr stroke \<Rightarrow>
          (case fitContours contours scale tolerance of
             Inl e \<Rightarrow> Inl e
           | Inr strokes \<Rightarrow> Inr (if length stroke > 0 then stroke # strokes else strokes)))"

definition traceEdges :: "ImageData \<Rightarrow> nat \<Rightarrow> real \<Rightarrow> real \<Rightarrow> ImageAnalysis
                            \<Rightarrow> error + BezierCtrl list list" where
  "traceEdges imageData traceRes scale errorTolerance analysis =
     (case cannyEdgeDetection imageData (recommendedSigma analysis) (recommendedLow analysis)
             (recommendedHigh analysis) of
        Inl e \<Rightarrow> Inl e
      | Inr edgeMask \<Rightarrow>
          let edgeCount = length (filter (\<lambda>b. b) edgeMask)
          in if edgeCount = 0 then Inr []
             else
               let maxContours = nat (min 30 (max 5 (round (real edgeCount / real (traceRes * 2)))));
                   minLen = max 15 (real traceRes * (3 / 100));
                   contours = marchingSquaresMulti edgeMask traceRes traceRes maxContours minLen;
                   photoTolerance = max errorTolerance (errorTolerance * (12 / 10))
               in fitContours contours scale photoTolerance)"

section \<open>Evaluating distances\<close>

lemmas vec_defs = len_def sub_def add_def mul_def dot_def hypot_def p0_def c1_def c2_def p3_def

lemma sqrt_less_num: "0 \<le> c \<Longrightarrow> (sqrt x < c) = (x < c * c)"
  by (metis abs_of_nonneg real_sqrt_abs2 real_sqrt_less_iff)

lemma sqrt_le_num: "0 \<le> c \<Longrightarrow> (c \<le> sqrt x) = (c * c \<le> x)"
  by (metis abs_of_nonneg real_sqrt_abs2 real_sqrt_le_iff)

lemma num_less_sqrt: "0 \<le> c \<Longrightarrow> (c < sqrt x) = (c * c < x)"
  by (metis abs_of_nonneg real_sqrt_abs2 real_sqrt_less_iff)

lemma sqrt_le_num': "0 \<le> c \<Longrightarrow> (sqrt x \<le> c) = (x \<le> c * c)"
  by (metis abs_of_nonneg real_sqrt_abs2 real_sqrt_le_iff)

lemma hypot_eq_0: "hypot x y = 0 \<longleftrightarrow> x = 0 \<and> y = 0"
  unfolding hypot_def
  by (metis add_nonneg_eq_0_iff mult_eq_0_iff real_sqrt_eq_zero_cancel_iff zero_le_square real_sqrt_zero)

section \<open>Properties of the simplifier\<close>

lemma fold_firstMax:
  "fold (\<lambda>i (m, k). let d = f (xs ! (i - b)) in if d > m then (d, i) else (m, k))
        [b ..< b + length xs] acc = firstMax f xs b acc"
proof (induction xs arbitrary: b acc)
  case Nil
  then show ?case by simp
next
  case (Cons x xs)
  have "[b ..< b + length (x # xs)] = b # [Suc b ..< Suc b + length xs]"
    by (simp add: upt_rec)
  moreover have "fold (\<lambda>i (m, k). let d = f ((x # xs) ! (i - b)) in if d > m then (d, i) else (m, k))
        [Suc b ..< Suc b + length xs] acc' =
     fold (\<lambda>i (m, k). let d = f (xs ! (i - Suc b)) in if d > m then (d, i) else (m, k))
        [Suc b ..< Suc b + length xs] acc'" for acc'
    by (rule fold_cong [OF refl refl]) (auto simp: nth_Cons' fun_eq_iff)
  ultimately show ?case
    using Cons.IH [of "Suc b"] by (cases acc) (simp add: Let_def)
qed

lemma rdpScan_firstMax:
  "rdpScan (a # mid @ [b]) = firstMax (\<lambda>p. distPointLine p a b) mid 1 (0, 0)"
proof -
  have "rdpScan (a # mid @ [b]) =
     fold (\<lambda>i (m, k). let d = distPointLine (mid ! (i - 1)) a b in if d > m then (d, i) else (m, k))
        [1 ..< 1 + length mid] (0, 0)"
    unfolding rdpScan_def
    by (rule fold_cong) (auto simp: nth_append nth_Cons' fun_eq_iff)
  then show ?thesis using fold_firstMax [of "\<lambda>p. distPointLine p a b" mid 1 "(0,0)"] by simp
qed

lemma firstMax_ge: "fst acc \<le> fst (firstMax f xs i acc)"
  by (induction xs arbitrary: i acc) (auto intro: order_trans less_imp_le)

lemma firstMax_bound: "x \<in> set xs \<Longrightarrow> f x \<le> fst (firstMax f xs i acc)"
proof (induction xs arbitrary: i acc)
  case Nil
  then show ?case by simp
next
  case (Cons y ys)
  show ?case
  proof (cases "x = y")
    case True
    have "f y \<le> fst (if f y > fst acc then (f y, i) else acc)" by auto
    also have "\<dots> \<le> fst (firstMax f ys (Suc i) (if f y > fst acc then (f y, i) else acc))"
      by (rule firstMax_ge)
    finally show ?thesis using True by simp
  next
    case False
    then show ?thesis using Cons by auto
  qed
qed

lemma firstMax_unchanged:
  "\<forall>x\<in>set xs. f x \<le> fst acc \<Longrightarrow> firstMax f xs i acc = acc"
  by (induction xs arbitrary: i) auto

lemma firstMax_append:
  "firstMax f (xs @ ys) i acc = firstMax f ys (i + length xs) (firstMax f xs i acc)"
  by (induction xs arbitrary: i acc) auto

text \<open>the scan either stays at the start value or stops on the first maximal element\<close>
lemma firstMax_cases:
  "firstMax f xs i acc = acc \<and> (\<forall>x\<in>set xs. f x \<le> fst acc) \<or>
   (\<exists>pre x post. xs = pre @ x # post \<and> firstMax f xs i acc = (f x, i + length pre)
       \<and> fst acc < f x \<and> (\<forall>y\<in>set pre. f y < f x) \<and> (\<forall>y\<in>set post. f y \<le> f x))"
proof (induction xs arbitrary: i acc)
  case Nil
  then show ?case by simp
next
  case (Cons y ys)
  let ?acc' = "if f y > fst acc then (f y, i) else acc"
  from Cons.IH [of "Suc i" ?acc']
  show ?case
  proof (elim disjE conjE exE)
    assume a: "firstMax f ys (Suc i) ?acc' = ?acc'" "\<forall>x\<in>set ys. f x \<le> fst ?acc'"
    show ?thesis
    proof (cases "f y > fst acc")
      case True
      then have "y # ys = [] @ y # ys \<and> firstMax f (y # ys) i acc = (f y, i + length ([]::'a list))
        \<and> fst acc < f y \<and> (\<forall>z\<in>set []. f z < f y) \<and> (\<forall>z\<in>set ys. f z \<le> f y)"
        using a by auto
      then show ?thesis by blast
    next
      case False
      then show ?thesis using a by auto
    qed
  next
    fix pre x post
    assume a: "ys = pre @ x # post" "firstMax f ys (Suc i) ?acc' = (f x, Suc i + length pre)"
      "fst ?acc' < f x" "\<forall>y\<in>set pre. f y < f x" "\<forall>y\<in>set post. f y \<le> f x"
    have "y # ys = (y # pre) @ x # post \<and> firstMax f (y # ys) i acc = (f x, i + length (y # pre))
        \<and> fst acc < f x \<and> (\<forall>z\<in>set (y # pre). f z < f x) \<and> (\<forall>z\<in>set post. f z \<le> f x)"
      using a by (auto split: if_splits)
    then show ?thesis by blast
  qed
qed

lemma firstMax_unique:
  assumes "\<forall>y\<in>set pre. f y < f x" "\<forall>y\<in>set post. f y \<le> f x" "fst acc < f x"
  shows "firstMax f (pre @ x # post) i acc = (f x, i + length pre)"
proof -
  have 1: "fst (firstMax f pre i acc) < f x \<and> (\<forall>y\<in>set pre. f y < f x) " 
    using assms(1,3)
  proof (induction pre arbitrary: i acc)
    case Nil then show ?case by simp
  next
    case (Cons a pre)
    then show ?case by auto
  qed
  then show ?thesis
    using assms(2) by (simp add: firstMax_append firstMax_unchanged)
qed

lemma rdp_small: "length points < 3 \<Longrightarrow> rdp points eps = Inr points"
  by (simp add: rdp.simps)

lemma rdp_collapse:
  assumes "m \<noteq> []" "\<forall>p\<in>set m. distPointLine p a b \<le> eps" "0 \<le> eps"
  shows "rdp (a # m @ [b]) eps = Inr [a, b]"
proof -
  let ?f = "\<lambda>p. distPointLine p a b"
  have "fst (firstMax ?f m 1 (0, 0)) \<le> eps"
    using firstMax_cases [of ?f m 1 "(0, 0)"] assms(2,3) by auto
  moreover have "\<not> length (a # m @ [b]) < 3" using assms(1) by (cases m) auto
  ultimately show ?thesis
    by (subst rdp.simps) (simp add: rdpScan_firstMax Let_def nth_append)
qed

lemma rdp_split:
  assumes "\<forall>y\<in>set pre. distPointLine y a b < distPointLine x a b"
    and "\<forall>y\<in>set post. distPointLine y a b \<le> distPointLine x a b"
    and "eps < distPointLine x a b" "0 \<le> eps"
  shows "rdp (a # pre @ x # post @ [b]) eps =
     (case rdp (a # pre @ [x]) eps of
        Inl e \<Rightarrow> Inl e
      | Inr left \<Rightarrow> (case rdp (x # post @ [b]) eps of
                       Inl e \<Rightarrow> Inl e
                     | Inr right \<Rightarrow> Inr (butlast left @ right)))"
proof -
  let ?f = "\<lambda>p. distPointLine p a b"
  have "firstMax ?f (pre @ x # post) 1 (0, 0) = (?f x, 1 + length pre)"
    using assms by (intro firstMax_unique) auto
  then have s: "rdpScan (a # pre @ x # post @ [b]) = (?f x, 1 + length pre)"
    using rdpScan_firstMax [of a "pre @ x # post" b] by simp
  have t: "take (Suc (Suc (length pre))) (a # pre @ x # post @ [b]) = a # pre @ [x]"
    by simp
  have d: "drop (Suc (length pre)) (a # pre @ x # post @ [b]) = x # post @ [b]"
    by simp
  show ?thesis
    by (subst rdp.simps) (simp add: s t d assms(3) del: take_Suc_Cons drop_Suc_Cons cong: sum.case_cong)
qed

lemma rdp_cases:
  assumes "0 \<le> eps"
  obtains (small) "length points < 3"
  | (collapse) a m b where "points = a # m @ [b]" "m \<noteq> []"
      "\<forall>p\<in>set m. distPointLine p a b \<le> eps"
  | (split) a pre x post b where "points = a # pre @ x # post @ [b]"
      "\<forall>y\<in>set pre. distPointLine y a b < distPointLine x a b"
      "\<forall>y\<in>set post. distPointLine y a b \<le> distPointLine x a b"
      "eps < distPointLine x a b"
proof (cases "length points < 3")
  case True
  then show ?thesis by (rule small)
next
  case False
  then obtain a rest where p: "points = a # rest" "2 \<le> length rest" by (cases points) auto
  then have "rest = butlast rest @ [last rest]" "butlast rest \<noteq> []"
    by (cases rest; cases "tl rest"; auto)+
  then obtain m b where r: "rest = m @ [b]" "m \<noteq> []"
    by blast
  let ?f = "\<lambda>p. distPointLine p a b"
  show ?thesis
  proof (cases "\<forall>p\<in>set m. ?f p \<le> eps")
    case True
    then show ?thesis using p r by (intro collapse) auto
  next
    case False
    with firstMax_cases [of ?f m 1 "(0, 0)"] assms
    obtain pre x post where "m = pre @ x # post"
      "\<forall>y\<in>set pre. ?f y < ?f x" "\<forall>y\<in>set post. ?f y \<le> ?f x" "0 < ?f x"
      by fastforce
    moreover from this False have "eps < ?f x" by (metis Un_iff insert_iff leI list.simps(15) order_less_le_trans order_trans set_append less_imp_le)
    ultimately show ?thesis using p r by (intro split [of a pre x post b]) auto
  qed
qed

lemma rdp_shape:
  "0 \<le> eps \<Longrightarrow> 2 \<le> length points \<Longrightarrow>
   \<exists>mid. rdp points eps = Inr (hd points # mid @ [last points]) \<and> subseq mid (butlast (tl points))"
proof (induction points rule: length_induct)
  case (1 points)
  from \<open>0 \<le> eps\<close> show ?case
  proof (cases rule: rdp_cases [where points = points])
    case small
    with 1(3) obtain a b where "points = [a, b]"
      by (cases points; cases "tl points"; cases "tl (tl points)") auto
    then show ?thesis by (simp add: rdp_small)
  next
    case (collapse a m b)
    then show ?thesis using rdp_collapse [of m a b eps] 1(2) by auto
  next
    case (split a pre x post b)
    have "\<exists>mid. rdp (a # pre @ [x]) eps = Inr (hd (a # pre @ [x]) # mid @ [last (a # pre @ [x])])
        \<and> subseq mid (butlast (tl (a # pre @ [x])))"
      using 1 split(1) by (intro 1(1) [rule_format]) auto
    then obtain ml where l: "rdp (a # pre @ [x]) eps = Inr (a # ml @ [x])" "subseq ml pre"
      by auto
    have "\<exists>mid. rdp (x # post @ [b]) eps = Inr (hd (x # post @ [b]) # mid @ [last (x # post @ [b])])
        \<and> subseq mid (butlast (tl (x # post @ [b])))"
      using 1 split(1) by (intro 1(1) [rule_format]) auto
    then obtain mr where r: "rdp (x # post @ [b]) eps = Inr (x # mr @ [b])" "subseq mr post"
      by auto
    have "rdp points eps = Inr (a # (ml @ x # mr) @ [b])"
      using rdp_split [OF split(2,3,4) 1(2)] l r split(1) by (simp add: butlast_append)
    moreover have "subseq (ml @ x # mr) (pre @ x # post)"
      using l(2) r(2) by (intro list_emb_append_mono) auto
    ultimately show ?thesis using split(1) by (auto simp: butlast_append)
  qed
qed

lemma rdp_fixed:
  "0 \<le> eps \<Longrightarrow> rdp points eps = Inr r \<Longrightarrow> rdp r eps = Inr r"
proof (induction points arbitrary: r rule: length_induct)
  case (1 points)
  from \<open>0 \<le> eps\<close> show ?case
  proof (cases rule: rdp_cases [where points = points])
    case small
    then show ?thesis using 1(3) by (simp add: rdp_small)
  next
    case (collapse a m b)
    then show ?thesis using rdp_collapse [of m a b eps] 1(2,3) by (auto simp: rdp_small)
  next
    case (split a pre x post b)
    obtain ml where l: "rdp (a # pre @ [x]) eps = Inr (a # ml @ [x])" "subseq ml pre"
      using rdp_shape [OF 1(2), of "a # pre @ [x]"] by auto
    obtain mr where r: "rdp (x # post @ [b]) eps = Inr (x # mr @ [b])" "subseq mr post"
      using rdp_shape [OF 1(2), of "x # post @ [b]"] by auto
    have res: "r = a # ml @ x # mr @ [b]"
      using rdp_split [OF split(2,3,4) 1(2)] l r split(1) 1(3) by (simp add: butlast_append)
    have l2: "rdp (a # ml @ [x]) eps = Inr (a # ml @ [x])"
      using 1(1) [rule_format, of "a # pre @ [x]" "a # ml @ [x]"] 1(2) l(1) split(1) by simp
    have r2: "rdp (x # mr @ [b]) eps = Inr (x # mr @ [b])"
      using 1(1) [rule_format, of "x # post @ [b]" "x # mr @ [b]"] 1(2) r(1) split(1) by simp
    have "set ml \<subseteq> set pre" "set mr \<subseteq> set post"
      using l(2) r(2) by (auto dest: list_emb_set)
    then have "\<forall>y\<in>set ml. distPointLine y a b < distPointLine x a b"
      "\<forall>y\<in>set mr. distPointLine y a b \<le> distPointLine x a b"
      using split(2,3) by auto
    from rdp_split [OF this split(4) 1(2)] l2 r2 res
    show ?thesis by (simp add: butlast_append)
  qed
qed

lemma rdp_returns: "0 \<le> eps \<Longrightarrow> \<exists>r. rdp points eps = Inr r"
proof (cases "2 \<le> length points")
  case True
  assume "0 \<le> eps"
  from rdp_shape [OF this True] show ?thesis by blast
next
  case False
  then show ?thesis by (simp add: rdp_small)
qed






lemma ex_rdp_keep:
  "rdp [(0,0),(1,0),(2,1),(3,0),(4,0)] (1/2) = Inr [(0,0),(2,1),(4,0)]"
  by (simp add: rdp.simps rdpScan_def distPointLine_def hypot_def Let_def num_less_sqrt
        sqrt_less_num real_sqrt_divide)

subsection \<open>Claims about the simplifier\<close>

text \<open>
  Claim C6 (RDP idempotence): for every polyline and every \<open>epsilon \<ge> 0\<close>, \<open>rdp\<close> returns a
  list, and applying \<open>rdp\<close> with the same \<open>epsilon\<close> to that list returns it unchanged.
\<close>

theorem rdp_idempotent:
  "0 \<le> eps \<Longrightarrow> \<exists>r. rdp points eps = Inr r \<and> rdp r eps = Inr r"
  using rdp_returns [of eps points] rdp_fixed [of eps points] by blast

theorem rdp_idempotent_witness:
  "(0::real) \<le> 1 / 2 \<and>
   rdp [(0,0),(1,0),(2,1),(3,0),(4,0)] (1 / 2) = Inr [(0,0),(2,1),(4,0)] \<and>
   rdp [(0,0),(2,1),(4,0)] (1 / 2) = Inr [(0,0),(2,1),(4,0)]"
  using rdp_idempotent [of "1 / 2" "[(0,0),(1,0),(2,1),(3,0),(4,0)]"]
  by (simp add: ex_rdp_keep)



text \<open>
  Claim C10: for every polyline of at least one point and every \<open>epsilon \<ge> 0\<close>, the
  output of \<open>rdp\<close> is a subsequence of the input, and it starts with the first and ends
  with the last input point.
\<close>

theorem rdp_subseq_endpoints:
  assumes "0 \<le> eps" "points \<noteq> []"
  shows "\<exists>r. rdp points eps = Inr r \<and> subseq r points \<and> r \<noteq> [] \<and>
             hd r = hd points \<and> last r = last points"
proof (cases "2 \<le> length points")
  case True
  from rdp_shape [OF assms(1) True] obtain mid where
    m: "rdp points eps = Inr (hd points # mid @ [last points])"
       "subseq mid (butlast (tl points))" by blast
  obtain a rest where p: "points = a # rest" "rest \<noteq> []"
    using True by (cases points) fastforce+
  have "subseq (mid @ [last rest]) (butlast rest @ [last rest])"
    using m(2) p by (intro list_emb_append_mono) auto
  then have "subseq (hd points # mid @ [last points]) points"
    using p by simp
  then show ?thesis using m(1) by simp
next
  case False
  then show ?thesis using assms(2) by (simp add: rdp_small)
qed

theorem rdp_subseq_endpoints_witness:
  "(0::real) \<le> 1 / 2 \<and> [(0,0),(1,0),(2,1),(3,0),(4::real,0::real)] \<noteq> [] \<and>
   rdp [(0,0),(1,0),(2,1),(3,0),(4,0)] (1 / 2) = Inr [(0,0),(2,1),(4,0)] \<and>
   subseq [(0,0),(2,1),(4,0)] [(0,0),(1,0),(2,1),(3,0),(4::real,0::real)]"
  using rdp_subseq_endpoints [of "1 / 2" "[(0,0),(1,0),(2,1),(3,0),(4,0)]"]
  by (simp add: ex_rdp_keep)

section \<open>Properties of the curve fitter\<close>

lemma generateBezier_ends:
  "p0 (generateBezier points u lt rt) = points ! 0"
  "p3 (generateBezier points u lt rt) = points ! (length points - 1)"
  by (simp_all add: generateBezier_def p0_def p3_def Let_def split: prod.splits)

lemma reparamLoop_ends:
  "reparamLoop n points lt rt err u bezier split = Inl (b, u') \<Longrightarrow>
     p0 b = points ! 0 \<and> p3 b = points ! (length points - 1)"
  by (induction n arbitrary: u bezier split)
     (auto simp: Let_def generateBezier_ends split: if_splits)

lemma chained_append:
  "chained xs \<Longrightarrow> chained ys \<Longrightarrow> xs \<noteq> [] \<Longrightarrow> ys \<noteq> [] \<Longrightarrow> p3 (last xs) = p0 (hd ys)
     \<Longrightarrow> chained (xs @ ys)"
proof (induction xs rule: induct_list012)
  case 1
  then show ?case by simp
next
  case (2 s)
  then show ?case by (cases ys) auto
next
  case (3 s t r)
  then show ?case by simp
qed

lemma chained_nth:
  "chained segs \<Longrightarrow> Suc i < length segs \<Longrightarrow> p3 (segs ! i) = p0 (segs ! Suc i)"
proof (induction segs arbitrary: i rule: chained.induct)
  case (1 s t r)
  then show ?case by (cases i) auto
qed simp_all

lemma fitCubic_base:
  "points \<noteq> [] \<Longrightarrow> length points = 2 \<or> depth > 50 \<Longrightarrow>
   fitCubic points leftTan rightTan err depth =
     Inr [(points ! 0,
           add (points ! 0) (mul leftTan (len (sub (points ! 0) (points ! (length points - 1))) / 3)),
           add (points ! (length points - 1))
               (mul rightTan (len (sub (points ! 0) (points ! (length points - 1))) / 3)),
           points ! (length points - 1))]"
  by (simp add: fitCubic.simps [of points leftTan rightTan err depth] Let_def)

lemma fitCubic_step:
  "points \<noteq> [] \<Longrightarrow> \<not> (length points = 2 \<or> depth > 50) \<Longrightarrow>
   (fitCubic points leftTan rightTan err depth) =
     (case fitAttempt points leftTan rightTan err of
        Inl (bezier, u) \<Rightarrow> Inr [bezier]
      | Inr split \<Rightarrow>
          if length points < 3 then Inl TypeError
          else
            let split2 = clampSplit (length points) split;
                centerTan = normalizePt (sub (points ! (split2 - 1)) (points ! (split2 + 1)))
            in case fitCubic (take (split2 + 1) points) leftTan centerTan err (depth + 1) of
                 Inl e \<Rightarrow> Inl e
               | Inr left \<Rightarrow>
                   (case fitCubic (drop split2 points) (mul centerTan (- 1)) rightTan err
                           (depth + 1) of
                      Inl e \<Rightarrow> Inl e
                    | Inr right \<Rightarrow> Inr (left @ right)))"
  by (simp add: fitCubic.simps [of points leftTan rightTan err depth] fitAttempt_def
        clampSplit_def Let_def cong: sum.case_cong)

lemma clampSplit_range: "3 \<le> n \<Longrightarrow> 1 \<le> clampSplit n s \<and> clampSplit n s + 1 < n"
  unfolding clampSplit_def Let_def by (cases "s = 0"; cases "n - 1 \<le> s") auto

lemma fitAttempt_ends:
  "fitAttempt points lt rt err = Inl (b, u) \<Longrightarrow>
     p0 b = points ! 0 \<and> p3 b = points ! (length points - 1)"
  by (auto simp: fitAttempt_def Let_def generateBezier_ends split: if_splits
           dest: reparamLoop_ends)

lemma fitCubic_shape:
  "2 \<le> length points \<Longrightarrow>
   \<exists>segs. fitCubic points lt rt err depth = Inr segs \<and> segs \<noteq> [] \<and>
          p0 (hd segs) = hd points \<and> p3 (last segs) = last points \<and> chained segs"
proof (induction points arbitrary: lt rt depth rule: length_induct)
  case (1 points)
  have ne: "points \<noteq> []" using 1(2) by auto
  have h0: "points ! 0 = hd points" using ne by (simp add: hd_conv_nth)
  have hl: "points ! (length points - 1) = last points" using ne by (simp add: last_conv_nth)
  show ?case
  proof (cases "length points = 2 \<or> depth > 50")
    case True
    then show ?thesis using ne h0 hl
      by (simp add: fitCubic_base p0_def p3_def)
  next
    case base: False
    show ?thesis
    proof (cases "fitAttempt points lt rt err")
      case (Inl bu)
      then obtain b u where bu: "fitAttempt points lt rt err = Inl (b, u)" by (cases bu) auto
      from fitAttempt_ends [OF this] show ?thesis
        using h0 hl by (simp add: fitCubic_step [OF ne base] bu)
    next
      case (Inr split)
      define split2 where "split2 = clampSplit (length points) split"
      define centerTan where "centerTan = normalizePt (sub (points ! (split2 - 1))
                                                       (points ! (split2 + 1)))"
      have n3: "3 \<le> length points" using base 1(2) by auto
      have s2: "1 \<le> split2" "split2 + 1 < length points"
        using clampSplit_range [OF n3] by (auto simp: split2_def)
      have ll: "length (take (split2 + 1) points) < length points"
        "2 \<le> length (take (split2 + 1) points)" using s2 by simp_all
      have lr: "length (drop split2 points) < length points"
        "2 \<le> length (drop split2 points)" using s2 by simp_all
      from 1(1) [rule_format, OF ll, of lt centerTan "depth + 1"]
      obtain left where l: "fitCubic (take (split2 + 1) points) lt centerTan err (depth + 1) = Inr left"
          "left \<noteq> []" "p0 (hd left) = hd (take (split2 + 1) points)"
          "p3 (last left) = last (take (split2 + 1) points)" "chained left"
        by blast
      from 1(1) [rule_format, OF lr, of "mul centerTan (- 1)" rt "depth + 1"]
      obtain right where r: "fitCubic (drop split2 points) (mul centerTan (- 1)) rt err (depth + 1) = Inr right"
          "right \<noteq> []" "p0 (hd right) = hd (drop split2 points)"
          "p3 (last right) = last (drop split2 points)" "chained right"
        by blast
      have res: "fitCubic points lt rt err depth = Inr (left @ right)"
        using n3 l(1) [unfolded centerTan_def] r(1) [unfolded centerTan_def]
        by (simp add: fitCubic_step [OF ne base] Inr Let_def split2_def [symmetric])
      have j: "last (take (split2 + 1) points) = hd (drop split2 points)"
        using s2 by (simp add: last_conv_nth hd_drop_conv_nth take_Suc_conv_app_nth)
      have "hd (take (split2 + 1) points) = hd points" using ne by (cases points) auto
      moreover have "last (drop split2 points) = last points" using s2 by simp
      moreover have "chained (left @ right)"
        using chained_append [OF l(5) r(5) l(2) r(2)] l(4) r(3) j by simp
      ultimately show ?thesis using res l r by simp
    qed
  qed
qed

lemma fitCubicTrace_base:
  "points \<noteq> [] \<Longrightarrow> length points = 2 \<or> depth > 50 \<Longrightarrow>
   fitCubicTrace points leftTan rightTan err depth =
     Inr [\<lparr>seg = (points ! 0,
           add (points ! 0) (mul leftTan (len (sub (points ! 0) (points ! (length points - 1))) / 3)),
           add (points ! (length points - 1))
               (mul rightTan (len (sub (points ! 0) (points ! (length points - 1))) / 3)),
           points ! (length points - 1)),
          piece = points, params = chordLengthParameterize points,
          origin = (if length points = 2 then TwoPoints else DepthCap), level = depth\<rparr>]"
  by (simp add: fitCubicTrace.simps [of points leftTan rightTan err depth] Let_def)

lemma fitCubicTrace_step:
  "points \<noteq> [] \<Longrightarrow> \<not> (length points = 2 \<or> depth > 50) \<Longrightarrow>
   (fitCubicTrace points leftTan rightTan err depth) =
     (case fitAttempt points leftTan rightTan err of
        Inl (bezier, u) \<Rightarrow>
          Inr [\<lparr>seg = bezier, piece = points, params = u,
                origin = (if fst (computeMaxError points
                            (generateBezier points (chordLengthParameterize points) leftTan rightTan)
                            (chordLengthParameterize points)) < err then FirstFit else Refit),
                level = depth\<rparr>]
      | Inr split \<Rightarrow>
          if length points < 3 then Inl TypeError
          else
            let split2 = clampSplit (length points) split;
                centerTan = normalizePt (sub (points ! (split2 - 1)) (points ! (split2 + 1)))
            in case fitCubicTrace (take (split2 + 1) points) leftTan centerTan err (depth + 1) of
                 Inl e \<Rightarrow> Inl e
               | Inr left \<Rightarrow>
                   (case fitCubicTrace (drop split2 points) (mul centerTan (- 1)) rightTan err
                           (depth + 1) of
                      Inl e \<Rightarrow> Inl e
                    | Inr right \<Rightarrow> Inr (left @ right)))"
  by (simp add: fitCubicTrace.simps [of points leftTan rightTan err depth] fitAttempt_def
        clampSplit_def Let_def cong: sum.case_cong)

lemma fitCubicTrace_erase:
  "2 \<le> length points \<Longrightarrow>
   \<exists>tr. fitCubicTrace points lt rt err depth = Inr tr \<and>
        fitCubic points lt rt err depth = Inr (map seg tr)"
proof (induction points arbitrary: lt rt depth rule: length_induct)
  case (1 points)
  have ne: "points \<noteq> []" using 1(2) by auto
  show ?case
  proof (cases "length points = 2 \<or> depth > 50")
    case True
    then show ?thesis using ne
      by (simp add: fitCubic_base fitCubicTrace_base)
  next
    case base: False
    show ?thesis
    proof (cases "fitAttempt points lt rt err")
      case (Inl bu)
      then obtain b u where bu: "fitAttempt points lt rt err = Inl (b, u)" by (cases bu) auto
      then show ?thesis
        by (simp add: fitCubic_step [OF ne base] fitCubicTrace_step [OF ne base])
    next
      case (Inr split)
      define split2 where "split2 = clampSplit (length points) split"
      define centerTan where "centerTan = normalizePt (sub (points ! (split2 - 1))
                                                       (points ! (split2 + 1)))"
      have n3: "3 \<le> length points" using base 1(2) by auto
      have s2: "1 \<le> split2" "split2 + 1 < length points"
        using clampSplit_range [OF n3] by (auto simp: split2_def)
      have ll: "length (take (split2 + 1) points) < length points"
        "2 \<le> length (take (split2 + 1) points)" using s2 by simp_all
      have lr: "length (drop split2 points) < length points"
        "2 \<le> length (drop split2 points)" using s2 by simp_all
      from 1(1) [rule_format, OF ll, of lt centerTan "depth + 1"]
      obtain left where l:
          "fitCubicTrace (take (split2 + 1) points) lt centerTan err (depth + 1) = Inr left"
          "fitCubic (take (split2 + 1) points) lt centerTan err (depth + 1) = Inr (map seg left)"
        by blast
      from 1(1) [rule_format, OF lr, of "mul centerTan (- 1)" rt "depth + 1"]
      obtain right where r:
          "fitCubicTrace (drop split2 points) (mul centerTan (- 1)) rt err (depth + 1) = Inr right"
          "fitCubic (drop split2 points) (mul centerTan (- 1)) rt err (depth + 1) = Inr (map seg right)"
        by blast
      have "fitCubic points lt rt err depth = Inr (map seg (left @ right))"
        using n3 l(2) [unfolded centerTan_def] r(2) [unfolded centerTan_def]
        by (simp add: fitCubic_step [OF ne base] Inr Let_def split2_def [symmetric])
      moreover have "fitCubicTrace points lt rt err depth = Inr (left @ right)"
        using n3 l(1) [unfolded centerTan_def] r(1) [unfolded centerTan_def]
        by (simp add: fitCubicTrace_step [OF ne base] Inr Let_def split2_def [symmetric])
      ultimately show ?thesis by blast
    qed
  qed
qed

lemma reparamLoop_accept:
  "reparamLoop n points lt rt err u bezier split = Inl (b, u') \<Longrightarrow>
     fst (computeMaxError points b u') < err"
  by (induction n arbitrary: u bezier split) (auto simp: Let_def split: if_splits)

lemma fitAttempt_accept:
  "fitAttempt points lt rt err = Inl (b, u) \<Longrightarrow> fst (computeMaxError points b u) < err"
  by (auto simp: fitAttempt_def Let_def split: if_splits dest: reparamLoop_accept)

lemma fitAttempt_first:
  "fitAttempt points lt rt err = Inl (b, u) \<Longrightarrow>
   fst (computeMaxError points (generateBezier points (chordLengthParameterize points) lt rt)
          (chordLengthParameterize points)) < err \<Longrightarrow> u = chordLengthParameterize points"
  by (auto simp: fitAttempt_def Let_def split: if_splits)

lemma bezierQ_0: "bezierQ ctrl 0 = p0 ctrl"
  by (simp add: bezierQ_def p0_def)

lemma bezierQ_1: "bezierQ ctrl 1 = p3 ctrl"
  by (simp add: bezierQ_def p3_def)

lemma chord_two:
  "chordLengthParameterize [a, b] = (if len (sub b a) = 0 then [0, 0] else [0, 1])"
  by (simp add: chordLengthParameterize_def Let_def)

lemma two_point_error:
  "p0 s = a \<Longrightarrow> p3 s = b \<Longrightarrow>
     fst (computeMaxError [a, b] s (chordLengthParameterize [a, b])) = 0"
  by (auto simp: computeMaxError_def chord_two bezierQ_0 bezierQ_1 len_def sub_def
        hypot_eq_0 Let_def)

lemma fittedOk_sublist:
  "fittedOk err xs f \<Longrightarrow> sublist xs ys \<Longrightarrow> fittedOk err ys f"
  unfolding fittedOk_def using sublist_order.order.trans by blast

lemma fitCubicTrace_sound:
  "2 \<le> length points \<Longrightarrow> 0 < err \<Longrightarrow> fitCubicTrace points lt rt err depth = Inr tr \<Longrightarrow>
     \<forall>f\<in>set tr. fittedOk err points f"
proof (induction points arbitrary: lt rt depth tr rule: length_induct)
  case (1 points)
  have ne: "points \<noteq> []" using 1(2) by auto
  have h0: "points ! 0 = hd points" using ne by (simp add: hd_conv_nth)
  have hl: "points ! (length points - 1) = last points" using ne by (simp add: last_conv_nth)
  show ?case
  proof (cases "length points = 2 \<or> depth > 50")
    case True
    show ?thesis
    proof (cases "length points = 2")
      case two: True
      then obtain a b where ab: "points = [a, b]"
        by (cases points; cases "tl points") auto
      have e0: "fst (computeMaxError [a, b] (a, X, Y, b) (chordLengthParameterize [a, b])) = 0"
        for X Y by (rule two_point_error) (simp_all add: p0_def p3_def)
      show ?thesis
        using 1(4) 1(3)
        by (auto simp: ab fitCubicTrace_base fittedOk_def p0_def p3_def e0)
    next
      case False
      with True have "depth > 50" by simp
      then show ?thesis
        using 1(4) ne h0 hl False
        by (auto simp: fitCubicTrace_base fittedOk_def p0_def p3_def)
    qed
  next
    case base: False
    show ?thesis
    proof (cases "fitAttempt points lt rt err")
      case (Inl bu)
      then obtain b u where bu: "fitAttempt points lt rt err = Inl (b, u)" by (cases bu) auto
      show ?thesis
        using 1(4) fitAttempt_ends [OF bu] fitAttempt_accept [OF bu] fitAttempt_first [OF bu] h0 hl
        by (cases "fst (computeMaxError points
                    (generateBezier points (chordLengthParameterize points) lt rt)
                    (chordLengthParameterize points)) < err")
           (auto simp: fitCubicTrace_step [OF ne base] bu fittedOk_def)
    next
      case (Inr split)
      define split2 where "split2 = clampSplit (length points) split"
      define centerTan where "centerTan = normalizePt (sub (points ! (split2 - 1))
                                                       (points ! (split2 + 1)))"
      have n3: "3 \<le> length points" using base 1(2) by auto
      have s2: "1 \<le> split2" "split2 + 1 < length points"
        using clampSplit_range [OF n3] by (auto simp: split2_def)
      have ll: "length (take (split2 + 1) points) < length points"
        "2 \<le> length (take (split2 + 1) points)" using s2 by simp_all
      have lr: "length (drop split2 points) < length points"
        "2 \<le> length (drop split2 points)" using s2 by simp_all
      obtain left where l:
          "fitCubicTrace (take (split2 + 1) points) lt centerTan err (depth + 1) = Inr left"
        using fitCubicTrace_erase [OF ll(2)] by blast
      obtain right where r:
          "fitCubicTrace (drop split2 points) (mul centerTan (- 1)) rt err (depth + 1) = Inr right"
        using fitCubicTrace_erase [OF lr(2)] by blast
      have "fitCubicTrace points lt rt err depth = Inr (left @ right)"
        using n3 l [unfolded centerTan_def] r [unfolded centerTan_def]
        by (simp add: fitCubicTrace_step [OF ne base] Inr Let_def split2_def [symmetric])
      then have tr: "tr = left @ right" using 1(4) by simp
      have "\<forall>f\<in>set left. fittedOk err (take (split2 + 1) points) f"
        using 1(1) [rule_format, OF ll 1(3) l] by blast
      then have "\<forall>f\<in>set left. fittedOk err points f"
        using fittedOk_sublist [OF _ sublist_take] by blast
      moreover have "\<forall>f\<in>set right. fittedOk err (drop split2 points) f"
        using 1(1) [rule_format, OF lr 1(3) r] by blast
      then have "\<forall>f\<in>set right. fittedOk err points f"
        using fittedOk_sublist [OF _ sublist_drop] by blast
      ultimately show ?thesis using tr by auto
    qed
  qed
qed

subsection \<open>The fitter on the polyline (0,0), (4,0), (4,3)\<close>

lemma ex_chord: "chordLengthParameterize [(0,0),(4,0),(4,3)] = [0, 4/7, 1]"
  by (simp add: chordLengthParameterize_def vec_defs Let_def)

lemma ex_tangents:
  "normalizePt (sub (4, 0) (0, 0)) = (1, 0)"
  "normalizePt (sub (4, 0) (4, 3)) = (0, - 1)"
  by (simp_all add: normalizePt_def vec_defs Let_def)

lemma ex_bezier0:
  "generateBezier [(0,0),(4,0),(4,3)] [0, 4/7, 1] (1,0) (0,-1) = ((0,0),(31/3,0),(4,5/3),(4,3))"
  by (simp add: generateBezier_def vec_defs Let_def power3_eq_cube power2_eq_square)

lemma ex_err0:
  "computeMaxError [(0,0),(4,0),(4,3)] ((0,0),(31/3,0),(4,5/3),(4,3)) [0, 4/7, 1] = (720/343, 1)"
  by (simp add: computeMaxError_def bezierQ_def vec_defs Let_def real_sqrt_divide)

lemma ex_u1:
  "reparameterize [(0,0),(4,0),(4,3)] [0, 4/7, 1] ((0,0),(31/3,0),(4,5/3),(4,3))
     = [0, 19772/73913, 1]"
  by (simp add: reparameterize_def newtonRaphsonRootFind_def bezierQ_def bezierQPrime_def
        bezierQPrime2_def vec_defs Let_def)

lemma ex_bezier1:
  "generateBezier [(0,0),(4,0),(4,3)] [0, 19772/73913, 1] (1,0) (0,-1)
     = ((0,0),(2438490463/267618963,0),(4,142651/54141),(4,3))"
  by (simp add: generateBezier_def vec_defs Let_def power3_eq_cube power2_eq_square)

lemma ex_err1:
  "fst (computeMaxError [(0,0),(4,0),(4,3)]
     ((0,0),(2438490463/267618963,0),(4,142651/54141),(4,3)) [0, 19772/73913, 1]) < 2"
  by (simp add: computeMaxError_def bezierQ_def vec_defs Let_def sqrt_less_num)

lemma ex_err1_chord:
  "2 \<le> fst (computeMaxError [(0,0),(4,0),(4,3)]
     ((0,0),(2438490463/267618963,0),(4,142651/54141),(4,3)) [0, 4/7, 1])"
  by (simp add: computeMaxError_def bezierQ_def vec_defs Let_def sqrt_le_num)

lemma ex_attempt:
  "fitAttempt [(0,0),(4,0),(4,3)] (1,0) (0,-1) 2 =
     Inl (((0,0),(2438490463/267618963,0),(4,142651/54141),(4,3)), [0, 19772/73913, 1])"
  using ex_err1
  by (simp add: fitAttempt_def ex_chord ex_bezier0 ex_err0 Let_def eval_nat_numeral
        ex_u1 ex_bezier1)

lemma ex_fitCurve:
  "fitCurve [(0,0),(4,0),(4,3)] 2 =
     Inr [((0,0),(2438490463/267618963,0),(4,142651/54141),(4,3))]"
  by (simp add: fitCurve_def ex_tangents Let_def fitCubic_step ex_attempt)

lemma ex_attempt_tight: "fitAttempt [(0,0),(4,0),(4,3)] (1,0) (0,-1) (1/10) = Inr 1"
  by (simp add: fitAttempt_def ex_chord ex_bezier0 ex_err0 Let_def)

lemma ex_fitCurve_tight:
  "fitCurve [(0,0),(4,0),(4,3)] (1/10) =
     Inr [((0,0),(4/3,0),(44/15,-4/5),(4,0)), ((4,0),(24/5,3/5),(4,2),(4,3))]"
  by (simp add: fitCurve_def ex_tangents Let_def fitCubic_step ex_attempt_tight clampSplit_def
        fitCubic_base normalizePt_def vec_defs)

lemma ex_fitCurveTrace:
  "fitCurveTrace [(0,0),(4,0),(4,3)] 2 =
     Inr [\<lparr>seg = ((0,0),(2438490463/267618963,0),(4,142651/54141),(4,3)),
           piece = [(0,0),(4,0),(4,3)], params = [0, 19772/73913, 1], origin = Refit,
           level = 0\<rparr>]"
  by (simp add: fitCurveTrace_def ex_tangents Let_def fitCubicTrace_step ex_attempt
        ex_chord ex_bezier0 ex_err0)

subsection \<open>Claims about the curve fitter\<close>

text \<open>
  Claim C2 (fitter chaining): for every polyline of at least 2 points and every error
  tolerance, \<open>fitCurve\<close> returns a segment list in which segment \<open>i\<close>'s \<open>p3\<close> equals
  segment \<open>i + 1\<close>'s \<open>p0\<close>.
\<close>

theorem fitCurve_chains:
  assumes "2 \<le> length points"
  shows "\<exists>segs. fitCurve points err = Inr segs \<and>
           (\<forall>i. Suc i < length segs \<longrightarrow> p3 (segs ! i) = p0 (segs ! Suc i))"
proof -
  from fitCubic_shape [OF assms] obtain segs where
    "fitCubic points (normalizePt (sub (points ! 1) (points ! 0)))
       (normalizePt (sub (points ! (length points - 2)) (points ! (length points - 1))))
       err 0 = Inr segs" "chained segs"
    by blast
  then show ?thesis using assms chained_nth [of segs]
    by (auto simp: fitCurve_def Let_def)
qed

theorem fitCurve_chains_witness:
  "2 \<le> length [(0,0),(4,0),(4::real,3::real)] \<and>
   (\<exists>segs. fitCurve [(0,0),(4,0),(4,3)] (1 / 10) = Inr segs \<and> length segs = 2 \<and>
      p3 (segs ! 0) = p0 (segs ! 1) \<and> p0 (segs ! 1) = (4, 0))"
  using fitCurve_chains [of "[(0,0),(4,0),(4,3)]" "1 / 10"]
  by (simp add: ex_fitCurve_tight p0_def p3_def)

text \<open>
  Claim C8 (termination): the recursion of \<open>fitCubic\<close> reaches a base case on every
  polyline of at least 2 points, whatever the tangents, the tolerance and the depth: it
  returns a non-empty segment list, a single segment when it is called on exactly 2 points
  or with \<open>depth > 50\<close>; and \<open>fitCurve\<close> returns a segment list on every input.
\<close>

theorem fitCurve_terminates:
  "(2 \<le> length points \<longrightarrow>
      (\<exists>segs. fitCubic points lt rt err depth = Inr segs \<and> segs \<noteq> [])) \<and>
   (points \<noteq> [] \<and> (length points = 2 \<or> 50 < depth) \<longrightarrow>
      (\<exists>s. fitCubic points lt rt err depth = Inr [s])) \<and>
   (\<exists>segs. fitCurve points err = Inr segs)"
proof (intro conjI impI)
  assume "2 \<le> length points"
  from fitCubic_shape [OF this]
  show "\<exists>segs. fitCubic points lt rt err depth = Inr segs \<and> segs \<noteq> []" by blast
next
  assume "points \<noteq> [] \<and> (length points = 2 \<or> 50 < depth)"
  then show "\<exists>s. fitCubic points lt rt err depth = Inr [s]"
    by (simp add: fitCubic_base)
next
  show "\<exists>segs. fitCurve points err = Inr segs"
  proof (cases "length points < 2")
    case True
    then show ?thesis by (simp add: fitCurve_def)
  next
    case False
    then have "2 \<le> length points" by simp
    from fitCubic_shape [OF this] obtain segs where
      "fitCubic points (normalizePt (sub (points ! 1) (points ! 0)))
         (normalizePt (sub (points ! (length points - 2)) (points ! (length points - 1))))
         err 0 = Inr segs" by blast
    then show ?thesis
      using False by (simp add: fitCurve_def Let_def)
  qed
qed

theorem fitCurve_terminates_witness:
  "2 \<le> length [(0,0),(4,0),(4::real,3::real)] \<and>
   (\<exists>segs. fitCubic [(0,0),(4,0),(4,3)] (1, 0) (0, - 1) 2 0 = Inr segs \<and> segs \<noteq> []) \<and>
   [(0,0),(4,0),(4::real,3::real)] \<noteq> [] \<and> (50::nat) < 51 \<and>
   (\<exists>s. fitCubic [(0,0),(4,0),(4,3)] (1, 0) (0, - 1) 2 51 = Inr [s]) \<and>
   fitCurve [(0,0),(4,0),(4,3)] 2
     = Inr [((0,0),(2438490463/267618963,0),(4,142651/54141),(4,3))]"
  using fitCurve_terminates [of "[(0,0),(4,0),(4,3)]" "(1, 0)" "(0, - 1)" 2 0]
    fitCurve_terminates [of "[(0,0),(4,0),(4,3)]" "(1, 0)" "(0, - 1)" 2 51]
  by (simp add: ex_fitCurve)

text \<open>
  Claim C3 (fitter error bound), as stated: every returned segment that is not from the
  depth cap has a maximum deviation below the tolerance at the chord-length parameters of
  its sub-polyline. It fails on the polyline (0,0), (4,0), (4,3) with tolerance 2: the
  single returned segment is accepted in the first round of the reparameterization loop, at
  depth 0, and its deviation at the chord-length parameters is not below 2.
\<close>

theorem fitCurve_chord_error_counterexample:
  "fitCurveTrace [(0,0),(4,0),(4,3)] 2 =
     Inr [\<lparr>seg = ((0,0),(2438490463/267618963,0),(4,142651/54141),(4,3)),
           piece = [(0,0),(4,0),(4,3)], params = [0, 19772/73913, 1], origin = Refit,
           level = 0\<rparr>] \<and>
   fitCurve [(0,0),(4,0),(4,3)] 2
     = Inr [((0,0),(2438490463/267618963,0),(4,142651/54141),(4,3))] \<and>
   \<not> fst (computeMaxError [(0,0),(4,0),(4,3)]
            ((0,0),(2438490463/267618963,0),(4,142651/54141),(4,3))
            (chordLengthParameterize [(0,0),(4,0),(4,3)])) < 2"
  using ex_err1_chord by (simp add: ex_fitCurveTrace ex_fitCurve ex_chord)

text \<open>
  Claim C3, amended: for every polyline of at least 2 points and every tolerance above 0,
  every segment returned by \<open>fitCurve\<close> was fitted to a contiguous sub-polyline whose
  first and last points are its \<open>p0\<close> and \<open>p3\<close>, and either it comes from the depth-cap
  base case (more than 2 points, depth above 50), or \<open>computeMaxError\<close> is below the
  tolerance at the parameters the segment was accepted with. Those are the chord-length
  parameters of the sub-polyline, except for a segment accepted inside the
  reparameterization loop, where they are the Newton-Raphson updates of them.
\<close>

theorem fitCurve_error_bound:
  assumes "0 < err" "2 \<le> length points"
  shows "\<exists>tr. fitCurveTrace points err = Inr tr \<and> fitCurve points err = Inr (map seg tr) \<and>
           (\<forall>f\<in>set tr.
              sublist (piece f) points \<and> p0 (seg f) = hd (piece f) \<and> p3 (seg f) = last (piece f)
              \<and> (if origin f = DepthCap then 50 < level f
                  else fst (computeMaxError (piece f) (seg f) (params f)) < err)
              \<and> (origin f \<noteq> Refit \<longrightarrow> params f = chordLengthParameterize (piece f)))"
proof -
  let ?lt = "normalizePt (sub (points ! 1) (points ! 0))"
  let ?rt = "normalizePt (sub (points ! (length points - 2)) (points ! (length points - 1)))"
  from fitCubicTrace_erase [OF assms(2), of ?lt ?rt err 0] obtain tr where
    t: "fitCubicTrace points ?lt ?rt err 0 = Inr tr"
       "fitCubic points ?lt ?rt err 0 = Inr (map seg tr)" by blast
  from fitCubicTrace_sound [OF assms(2,1) t(1)]
  have "\<forall>f\<in>set tr. fittedOk err points f" .
  then show ?thesis using t assms(2)
    by (auto simp: fitCurveTrace_def fitCurve_def Let_def fittedOk_def)
qed

theorem fitCurve_error_bound_witness:
  "(0::real) < 2 \<and> 2 \<le> length [(0,0),(4,0),(4::real,3::real)] \<and>
   fitCurveTrace [(0,0),(4,0),(4,3)] 2 =
     Inr [\<lparr>seg = ((0,0),(2438490463/267618963,0),(4,142651/54141),(4,3)),
           piece = [(0,0),(4,0),(4,3)], params = [0, 19772/73913, 1], origin = Refit,
           level = 0\<rparr>] \<and>
   fst (computeMaxError [(0,0),(4,0),(4,3)]
          ((0,0),(2438490463/267618963,0),(4,142651/54141),(4,3)) [0, 19772/73913, 1]) < 2"
  using fitCurve_error_bound [of 2 "[(0,0),(4,0),(4,3)]"]
  by (simp add: ex_fitCurveTrace)

section \<open>Properties of the contour tracer\<close>

lemma cellSegments_background:
  "(\<forall>i<length msk. \<not> msk ! i) \<Longrightarrow> cellSegments msk w x y = []"
  by (simp add: cellSegments_def isOn_def)

lemma cellScan_background:
  "(\<forall>i<length msk. \<not> msk ! i) \<Longrightarrow> cellScan msk w h = []"
  by (simp add: cellScan_def cellSegments_background)

lemma tracePaths_background:
  "(\<forall>i<length msk. \<not> msk ! i) \<Longrightarrow> tracePaths msk w h = []"
  by (simp add: tracePaths_def cellScan_background walkPaths_def buildAdjacency_def)

text \<open>
  Claim C4: in the path-walking phase no edge of the adjacency graph is walked twice,
  neither inside one path nor in two paths, that is, the edges of all paths together are
  distinct. The walk breaks this in the branch that closes a path
  (\<^verbatim>\<open>if (next === path[0]) { path.push(next); break; }\<close>), which neither looks the edge up
  in \<^verbatim>\<open>visitedEdges\<close> nor adds it, as the branch below it does. On the 2 x 2 mask with only
  the top-left pixel set the single path walks its only edge forth and back; on the 3 x 3
  mask with only the centre pixel set the edge that closes the first path starts a second
  path.
\<close>

theorem walkPaths_edge_walked_twice:
  "walkPaths (cellScan [True, False, False, False] 2 2) = [[(500, 0), (0, 500), (500, 0)]] \<and>
   \<not> distinct (concat (map pathEdges (walkPaths (cellScan [True, False, False, False] 2 2)))) \<and>
   walkPaths (cellScan [False, False, False, False, True, False, False, False, False] 3 3) =
     [[(1000, 500), (500, 1000), (1000, 1500), (1500, 1000), (1000, 500)],
      [(1500, 1000), (1000, 500)]] \<and>
   \<not> distinct (concat (map pathEdges
       (walkPaths (cellScan [False, False, False, False, True, False, False, False, False] 3 3))))"
  by code_simp

text \<open>
  Claim C9 (degenerate inputs): \<open>marchingSquares\<close> on a mask without foreground returns
  the empty list, \<open>fitCurve\<close> on fewer than 2 points returns the empty list, and \<open>rdp\<close>
  on a single point returns it unchanged; none of them raises.
\<close>

theorem degenerate_inputs:
  "((\<forall>i<length msk. \<not> msk ! i) \<longrightarrow>
      marchingSquares msk w h maxContours minLength = []) \<and>
   (length points < 2 \<longrightarrow> fitCurve points err = Inr []) \<and>
   rdp [p] eps = Inr [p]"
  by (simp add: marchingSquares_def tracePaths_background fitCurve_def rdp_small)

theorem degenerate_inputs_witness:
  "\<not> replicate 4 False ! 0 \<and> \<not> replicate 4 False ! 1 \<and>
   \<not> replicate 4 False ! 2 \<and> \<not> replicate 4 False ! 3 \<and>
   marchingSquares (replicate 4 False) 2 2 1 8 = [] \<and>
   length ([] :: Pt list) < 2 \<and> fitCurve [] 4 = Inr [] \<and>
   rdp [(1, 2)] 1 = Inr [(1, 2)]"
  using degenerate_inputs [of "replicate 4 False" 2 2 1 8 "[]" 4 "(1, 2)" 1]
  by simp

section \<open>Properties of the Otsu threshold\<close>


















end
